theory Spec2Isabelle
  imports Complex_Main "HOL-Library.Word" "HOL-Library.Sublist"
begin

section \<open>The server of Synced: session and resource coordination\<close>

text \<open>
  The server part of \<^verbatim>\<open>src/public/main.js\<close> (from the line
  \<^verbatim>\<open>import 'dotenv/config'\<close> on) is an ES module, hence strict-mode JavaScript, run
  by Node.js. Its state is four module-level variables: the maps \<^verbatim>\<open>fileMetaCache\<close>,
  \<^verbatim>\<open>ipRateLimits\<close> and \<^verbatim>\<open>activeHues\<close>, and the counter
  \<^verbatim>\<open>pendingUploadBytes\<close>. Every handler is modelled as a function from this state to
  the new state and the handler's visible outcome. A handler runs on one thread; the model
  executes each handler in one piece, the result of every awaited library call being an
  input of the model.

  Numbers are IEEE doubles in the source. Byte counts, lengths and timestamps are
  integer-valued and far below \<open>2 ^ 53\<close>, where double arithmetic is exact, so they are
  \<^typ>\<open>int\<close> here; \<^verbatim>\<open>NaN\<close> is \<^term>\<open>None\<close>. Hues are dyadic fractions of small
  size and are \<^typ>\<open>rat\<close>. A JavaScript string is a \<^typ>\<open>string\<close>, one
  \<^typ>\<open>char\<close> for each code unit.
\<close>

subsection \<open>The built-in \<^verbatim>\<open>Map\<close>: insertion-ordered\<close>

text \<open>
  A JavaScript \<^verbatim>\<open>Map\<close> iterates in insertion order of its keys. \<^verbatim>\<open>set\<close> on a key
  that is present replaces the value and keeps the key's position; on a new key it appends.
  \<^verbatim>\<open>keys().next().value\<close> is the first key, \<^verbatim>\<open>undefined\<close> on an empty map, and
  \<^verbatim>\<open>delete(undefined)\<close> then removes nothing.
\<close>

type_synonym ('k, 'v) jsmap = "('k \<times> 'v) list"

fun Map_set :: "'k \<Rightarrow> 'v \<Rightarrow> ('k, 'v) jsmap \<Rightarrow> ('k, 'v) jsmap" where
  "Map_set k v [] = [(k, v)]"
| "Map_set k v ((k', v') # m) = (if k' = k then (k, v) # m else (k', v') # Map_set k v m)"

definition Map_delete :: "'k \<Rightarrow> ('k, 'v) jsmap \<Rightarrow> ('k, 'v) jsmap" where
  "Map_delete k m = filter (\<lambda>e. fst e \<noteq> k) m"

definition Map_get :: "('k, 'v) jsmap \<Rightarrow> 'k \<Rightarrow> 'v option" where
  "Map_get m k = map_of m k"

definition Map_has :: "('k, 'v) jsmap \<Rightarrow> 'k \<Rightarrow> bool" where
  "Map_has m k = (Map_get m k \<noteq> None)"

definition Map_size :: "('k, 'v) jsmap \<Rightarrow> nat" where
  "Map_size m = length m"

definition Map_keys :: "('k, 'v) jsmap \<Rightarrow> 'k list" where
  "Map_keys m = map fst m"

definition Map_values :: "('k, 'v) jsmap \<Rightarrow> 'v list" where
  "Map_values m = map snd m"

text \<open>\<^verbatim>\<open>m.delete(m.keys().next().value)\<close>\<close>

definition Map_delete_oldest :: "('k, 'v) jsmap \<Rightarrow> ('k, 'v) jsmap" where
  "Map_delete_oldest m = (case Map_keys m of [] \<Rightarrow> m | oldest # _ \<Rightarrow> Map_delete oldest m)"

subsection \<open>Configuration and state\<close>

text \<open>
  \<^verbatim>\<open>CONFIG\<close>: the two cache limits are the literal 1000; the reserve and the message
  ceiling come from the environment (defaults 1024 MiB and 100), as does the number of
  users (default 100).
\<close>

record config =
  CACHE_LIMIT_FILES :: nat
  CACHE_LIMIT_IPS :: nat
  DISK_RESERVED :: int
  MAX_REQ_PER_MIN :: int
  MAX_USERS :: int

definition default_config :: config where
  "default_config =
     \<lparr>CACHE_LIMIT_FILES = 1000, CACHE_LIMIT_IPS = 1000,
      DISK_RESERVED = 1024 * 1024 * 1024, MAX_REQ_PER_MIN = 100, MAX_USERS = 100\<rparr>"

type_synonym byte = "8 word"

record file_meta =
  mime :: string
  size_bytes :: int

record limit_data =
  count :: int
  expires :: int

record server =
  fileMetaCache :: "(string, file_meta) jsmap"
  ipRateLimits :: "(string, limit_data) jsmap"
  activeHues :: "(string, rat) jsmap"
  pendingUploadBytes :: int

subsection \<open>Values of JavaScript\<close>

text \<open>
  A message is whatever value the client passes to \<^verbatim>\<open>socket.emit('message', ...)\<close>:
  nothing at all (\<^verbatim>\<open>undefined\<close>), \<^verbatim>\<open>null\<close>, a boolean, a number, a string, an array
  or an object; an object is the list of its own properties.
\<close>

datatype jsval =
  JUndefined
| JNull
| JBool bool
| JNum rat
| JStr string
| JArr "jsval list"
| JObj "(string \<times> jsval) list"

text \<open>
  Reading a property: of an object, its value or \<^verbatim>\<open>undefined\<close>; the handler reads no
  property that an array or a primitive value has. Assigning a property, in strict mode:
  possible on objects and arrays, a \<^verbatim>\<open>TypeError\<close> on every other value. The named
  properties assigned to an array are not kept in the model: the handler returns on an
  array before it reads one of them back.
\<close>

fun get_prop :: "jsval \<Rightarrow> string \<Rightarrow> jsval" where
  "get_prop (JObj kvs) k = (case Map_get kvs k of Some v \<Rightarrow> v | None \<Rightarrow> JUndefined)"
| "get_prop v k = JUndefined"

fun can_assign :: "jsval \<Rightarrow> bool" where
  "can_assign (JObj kvs) = True"
| "can_assign (JArr vs) = True"
| "can_assign v = False"

fun put_prop :: "string \<Rightarrow> jsval \<Rightarrow> jsval \<Rightarrow> jsval" where
  "put_prop k v (JObj kvs) = JObj (Map_set k v kvs)"
| "put_prop k v w = w"

fun truthy :: "jsval \<Rightarrow> bool" where
  "truthy JUndefined = False"
| "truthy JNull = False"
| "truthy (JBool b) = b"
| "truthy (JNum n) = (n \<noteq> 0)"
| "truthy (JStr s) = (s \<noteq> [])"
| "truthy v = True"

text \<open>\<^verbatim>\<open>s.split(',')\<close>\<close>

fun split_on :: "char \<Rightarrow> string \<Rightarrow> string list" where
  "split_on c [] = [[]]"
| "split_on c (x # xs) =
     (if x = c then [] # split_on c xs
      else (let r = split_on c xs in (x # hd r) # tl r))"

subsection \<open>Node and its packages\<close>

text \<open>
  What the server draws from Node and its packages: the signature detection of
  \<^verbatim>\<open>file-type\<close> (on the bytes of a file or buffer), the files on disk (a path that
  \<^verbatim>\<open>stat\<close> or \<^verbatim>\<open>open\<close> rejects has none), \<^verbatim>\<open>path.join(UPLOAD_DIR, _)\<close>,
  \<^verbatim>\<open>path.basename\<close> with one and with two arguments, \<^verbatim>\<open>path.extname\<close>,
  \<^verbatim>\<open>Buffer.from(_, 'base64')\<close>, and \<^verbatim>\<open>String(_)\<close> on a value that is no string
  (\<^term>\<open>None\<close> when the conversion throws).
\<close>

record runtime =
  fileType :: "byte list \<Rightarrow> string option"
  files :: "string \<rightharpoonup> byte list"
  upload_path :: "string \<Rightarrow> string"
  basename :: "string \<Rightarrow> string"
  basename_ext :: "string \<Rightarrow> string \<Rightarrow> string"
  extname :: "string \<Rightarrow> string"
  from_base64 :: "string \<Rightarrow> byte list"
  to_String :: "jsval \<Rightarrow> string option"

subsection \<open>Hue assignment\<close>

text \<open>
  The remainder operator \<^verbatim>\<open>%\<close> of JavaScript truncates the quotient towards zero, so
  the result has the sign of the dividend. The divisor is 360 wherever the server uses it.
\<close>

definition js_rem :: "rat \<Rightarrow> rat \<Rightarrow> rat" where
  "js_rem x y = x - y * of_int (if x / y < 0 then \<lceil>x / y\<rceil> else \<lfloor>x / y\<rfloor>)"

text \<open>
  \<^verbatim>\<open>assignHue\<close>: the body of the \<^verbatim>\<open>for\<close> loop at index \<open>i\<close>, on the pair
  \<^verbatim>\<open>(maxGap, bestHue)\<close>, and the function itself. \<^verbatim>\<open>sort((a, b) => a - b)\<close> sorts
  the numbers in ascending order.
\<close>

definition hue_body :: "rat list \<Rightarrow> nat \<Rightarrow> rat \<times> rat \<Rightarrow> rat \<times> rat" where
  "hue_body hues i st =
     (case st of (maxGap, bestHue) \<Rightarrow>
        (let current = hues ! i;
             next = hues ! ((i + 1) mod length hues);
             gap0 = next - current;
             gap = (if gap0 \<le> 0 then gap0 + 360 else gap0)
         in if gap > maxGap then (gap, js_rem (current + gap / 2) 360)
            else (maxGap, bestHue)))"

definition assignHue :: "(string, rat) jsmap \<Rightarrow> rat" where
  "assignHue hueMap =
     (let hues = sort (Map_values hueMap) in
      if length hues = 0 then 210
      else snd (fold (hue_body hues) [0..<length hues] (0, 0)))"




subsection \<open>Metadata cache and MIME detection\<close>

definition isText :: "byte list \<Rightarrow> bool" where
  "isText buf = (0 \<notin> set buf)"

definition cacheFileMeta ::
  "config \<Rightarrow> string \<Rightarrow> file_meta \<Rightarrow> (string, file_meta) jsmap \<Rightarrow> (string, file_meta) jsmap" where
  "cacheFileMeta cfg filename meta cache =
     Map_set filename meta
       (if Map_size cache \<ge> CACHE_LIMIT_FILES cfg then Map_delete_oldest cache else cache)"

text \<open>
  \<^verbatim>\<open>detectFileMeta\<close>. A path without a readable file makes \<^verbatim>\<open>stat\<close> or
  \<^verbatim>\<open>open\<close> throw, which the \<^verbatim>\<open>catch\<close> turns into \<^verbatim>\<open>null\<close>.
  \<^verbatim>\<open>handle.read(buffer, 0, 512, 0)\<close> yields the first 512 bytes, fewer when the file
  is shorter.
\<close>

definition detectFileMeta :: "runtime \<Rightarrow> string \<Rightarrow> file_meta option" where
  "detectFileMeta rt filePath =
     (case files rt filePath of
        None \<Rightarrow> None
      | Some bytes \<Rightarrow>
          (let size = int (length bytes) in
           case fileType rt bytes of
             Some m \<Rightarrow> Some \<lparr>mime = m, size_bytes = size\<rparr>
           | None \<Rightarrow>
               (let head = take 512 bytes;
                    mime = (if isText head then ''text/plain'' else ''application/octet-stream'')
                in Some \<lparr>mime = mime, size_bytes = size\<rparr>)))"

definition getCachedFileMeta ::
  "config \<Rightarrow> runtime \<Rightarrow> string \<Rightarrow> (string, file_meta) jsmap \<Rightarrow>
   file_meta option \<times> (string, file_meta) jsmap" where
  "getCachedFileMeta cfg rt filename cache =
     (if Map_has cache filename then (Map_get cache filename, cache)
      else
        (let filePath = upload_path rt filename;
             meta = detectFileMeta rt filePath
         in case meta of
              Some m \<Rightarrow> (meta, cacheFileMeta cfg filename m cache)
            | None \<Rightarrow> (meta, cache)))"

subsection \<open>The upload handler\<close>

text \<open>
  \<^verbatim>\<open>app.post('/upload')\<close>, the callback run when multer has stored the body. Inputs:
  \<open>err\<close>, multer's error; \<open>avail\<close>, \<^verbatim>\<open>stats.bavail * stats.bsize\<close> as sampled by
  \<^verbatim>\<open>statfs\<close>; \<open>len\<close>, the value of \<^verbatim>\<open>parseInt(req.headers['content-length'])\<close>,
  \<^term>\<open>None\<close> for \<^verbatim>\<open>NaN\<close>, which \<^verbatim>\<open>parseInt\<close> returns for a missing header and
  for one with no leading numeral; \<open>file\<close>, the stored file's name and path
  (\<^verbatim>\<open>req.file\<close>), if any.

  The closure \<^verbatim>\<open>releaseSpace\<close> captures \<^verbatim>\<open>len\<close> and the flag \<^verbatim>\<open>tracked\<close> of its
  own request; it is the record \<open>upload_request\<close> (\<open>req_len\<close> is the captured \<^verbatim>\<open>len\<close>).
\<close>

record upload_request =
  req_len :: int
  tracked :: bool

record upload_file =
  file_name :: string
  file_path :: string

record upload_result =
  status :: nat
  body :: string
  request :: "upload_request option"
  unlinked :: "string option"

definition unlink_file :: "upload_file option \<Rightarrow> string option" where
  "unlink_file file = map_option file_path file"

definition upload_post ::
  "config \<Rightarrow> runtime \<Rightarrow> string option \<Rightarrow> int \<Rightarrow> int option \<Rightarrow> upload_file option \<Rightarrow>
   server \<Rightarrow> upload_result \<times> server" where
  "upload_post cfg rt err avail len file s =
     (case err of
        Some message \<Rightarrow>
          (\<lparr>status = 400, body = message, request = None, unlinked = unlink_file file\<rparr>, s)
      | None \<Rightarrow>
          (let reserved = DISK_RESERVED cfg + pendingUploadBytes s in
           if len = None \<or> the len \<le> 0 then
             (\<lparr>status = 411, body = ''Length Required'', request = None,
               unlinked = unlink_file file\<rparr>, s)
           else if the len > avail - reserved then
             (\<lparr>status = 507, body = ''Storage full'', request = None,
               unlinked = unlink_file file\<rparr>, s)
           else
             (let s1 = s\<lparr>pendingUploadBytes := pendingUploadBytes s + the len\<rparr>;
                  req = \<lparr>req_len = the len, tracked = True\<rparr>
              in case file of
                   None \<Rightarrow>
                     (\<lparr>status = 500, body = ''Cannot read properties of undefined'',
                       request = Some req, unlinked = None\<rparr>, s1)
                 | Some f \<Rightarrow>
                     (let meta = detectFileMeta rt (file_path f);
                          s2 = (case meta of
                                  None \<Rightarrow> s1
                                | Some m \<Rightarrow>
                                    s1\<lparr>fileMetaCache :=
                                         cacheFileMeta cfg (file_name f) m (fileMetaCache s1)\<rparr>)
                      in (\<lparr>status = 200, body = ''/uploads/'' @ file_name f,
                            request = Some req, unlinked = None\<rparr>, s2)))))"

text \<open>
  \<^verbatim>\<open>releaseSpace\<close>, registered for both \<^verbatim>\<open>'finish'\<close> and \<^verbatim>\<open>'close'\<close> of the
  response: each signal that fires runs it once.
\<close>

definition releaseSpace :: "upload_request \<times> server \<Rightarrow> upload_request \<times> server" where
  "releaseSpace rs =
     (case rs of (r, s) \<Rightarrow>
        if tracked r then
          (r\<lparr>tracked := False\<rparr>, s\<lparr>pendingUploadBytes := pendingUploadBytes s - req_len r\<rparr>)
        else (r, s))"

datatype signal = Finish | Close

definition fire :: "signal \<Rightarrow> upload_request \<times> server \<Rightarrow> upload_request \<times> server" where
  "fire sg rs = releaseSpace rs"

definition admitted :: "upload_result \<Rightarrow> bool" where
  "admitted r = (request r \<noteq> None)"

text \<open>
  Several uploads in flight: the closures created so far are kept in a list, and an event
  is either a new request or a signal of the response of the request created \<open>i\<close>-th.
\<close>

datatype upload_event =
  Post "string option" int "int option" "upload_file option"
| Fire nat signal

fun upload_step ::
  "config \<Rightarrow> runtime \<Rightarrow> upload_event \<Rightarrow> upload_request list \<times> server \<Rightarrow>
   upload_request list \<times> server" where
  "upload_step cfg rt (Post err avail len file) (reqs, s) =
     (case upload_post cfg rt err avail len file s of
        (res, s') \<Rightarrow>
          (case request res of None \<Rightarrow> (reqs, s') | Some r \<Rightarrow> (reqs @ [r], s')))"
| "upload_step cfg rt (Fire i sg) (reqs, s) =
     (if i < length reqs then
        (case fire sg (reqs ! i, s) of (r', s') \<Rightarrow> (reqs[i := r'], s'))
      else (reqs, s))"

definition in_flight :: "upload_request list \<Rightarrow> int" where
  "in_flight reqs = sum_list (map req_len (filter tracked reqs))"

subsection \<open>Stored file names\<close>

text \<open>
  The regular expressions of the server. \<^verbatim>\<open>/[^a-z0-9.-]/gi\<close> matches every code unit
  that is no ASCII letter of either case (the flag \<^verbatim>\<open>i\<close>), no digit, no dot and no
  hyphen; \<^verbatim>\<open>/_+/g\<close> matches each maximal run of underscores; \<^verbatim>\<open>/^_+|_+$/g\<close> the
  runs of underscores at the two ends; \<^verbatim>\<open>/_+$/\<close> the run at the end.
\<close>

definition is_lower :: "char \<Rightarrow> bool" where
  "is_lower c = (97 \<le> (of_char c :: nat) \<and> (of_char c :: nat) \<le> 122)"

definition is_upper :: "char \<Rightarrow> bool" where
  "is_upper c = (65 \<le> (of_char c :: nat) \<and> (of_char c :: nat) \<le> 90)"

definition is_digit :: "char \<Rightarrow> bool" where
  "is_digit c = (48 \<le> (of_char c :: nat) \<and> (of_char c :: nat) \<le> 57)"

definition safe_char :: "char \<Rightarrow> bool" where
  "safe_char c = (is_lower c \<or> is_upper c \<or> is_digit c \<or> c = CHR ''.'' \<or> c = CHR ''-'')"

definition replace_unsafe :: "string \<Rightarrow> string" where
  "replace_unsafe s = map (\<lambda>c. if safe_char c then c else CHR ''_'') s"

fun collapse_underscores :: "string \<Rightarrow> string" where
  "collapse_underscores (a # b # cs) =
     (if a = CHR ''_'' \<and> b = CHR ''_'' then collapse_underscores (b # cs)
      else a # collapse_underscores (b # cs))"
| "collapse_underscores cs = cs"

definition strip_leading :: "string \<Rightarrow> string" where
  "strip_leading s = dropWhile (\<lambda>c. c = CHR ''_'') s"

definition strip_trailing :: "string \<Rightarrow> string" where
  "strip_trailing s = rev (dropWhile (\<lambda>c. c = CHR ''_'') (rev s))"

text \<open>\<^verbatim>\<open>randomBytes(8).toString('hex')\<close>: two lower-case hexadecimal digits a byte.\<close>

definition hex_digit :: "nat \<Rightarrow> char" where
  "hex_digit n = ''0123456789abcdef'' ! (n mod 16)"

definition to_hex :: "byte list \<Rightarrow> string" where
  "to_hex bs = concat (map (\<lambda>b. [hex_digit (unat b div 16), hex_digit (unat b mod 16)]) bs)"

text \<open>
  The \<^verbatim>\<open>filename\<close> callback of \<^verbatim>\<open>multer.diskStorage\<close>. \<open>random\<close> is the result
  of \<^verbatim>\<open>randomBytes(8)\<close>.
\<close>

definition safeName_of :: "string \<Rightarrow> string" where
  "safeName_of name =
     (let safeName = strip_trailing (strip_leading (collapse_underscores (replace_unsafe name)));
          safeName = (if length safeName > 100 then take 100 safeName else safeName)
      in strip_trailing safeName)"

definition upload_filename :: "runtime \<Rightarrow> byte list \<Rightarrow> string \<Rightarrow> string" where
  "upload_filename rt random originalname =
     (let id = to_hex random;
          ext = extname rt originalname;
          name = basename_ext rt originalname ext
      in id @ ''-'' @ safeName_of name @ ext)"

text \<open>
  The sanitization in the words of the specification: every character outside
  \<^verbatim>\<open>[a-z0-9.-]\<close> replaced by an underscore, runs collapsed, both edges trimmed, then
  truncated to 100 characters.
\<close>

definition spec_class :: "char \<Rightarrow> bool" where
  "spec_class c = (is_lower c \<or> is_digit c \<or> c = CHR ''.'' \<or> c = CHR ''-'')"

definition spec_sanitize :: "string \<Rightarrow> string" where
  "spec_sanitize name =
     take 100 (strip_trailing (strip_leading (collapse_underscores
       (map (\<lambda>c. if spec_class c then c else CHR ''_'') name))))"

definition is_hex :: "char \<Rightarrow> bool" where
  "is_hex c = (c \<in> set ''0123456789abcdef'')"

text \<open>
  The functions of Node's \<^verbatim>\<open>path\<close> module (POSIX flavour), as its documentation
  describes them; they make up the runtime of the examples.
  \<^verbatim>\<open>path.basename(p)\<close> is the last portion of the path, trailing separators ignored;
  \<^verbatim>\<open>path.extname(p)\<close> is the part of that portion from its last dot on, empty when
  there is no dot, when the only dot is the first character, and for \<^verbatim>\<open>..\<close>;
  \<^verbatim>\<open>path.basename(p, ext)\<close> removes the suffix \<^verbatim>\<open>ext\<close> from the last portion unless
  it is all of it.
\<close>

definition path_basename :: "string \<Rightarrow> string" where
  "path_basename p =
     (let q = dropWhile (\<lambda>c. c = CHR ''/'') (rev p)
      in rev (takeWhile (\<lambda>c. c \<noteq> CHR ''/'') q))"

definition path_extname :: "string \<Rightarrow> string" where
  "path_extname p =
     (let base = path_basename p in
      if CHR ''.'' \<notin> set base then []
      else
        (let ext = CHR ''.'' # rev (takeWhile (\<lambda>c. c \<noteq> CHR ''.'') (rev base))
         in if length ext = length base \<or> base = ''..'' then [] else ext))"

definition path_basename_ext :: "string \<Rightarrow> string \<Rightarrow> string" where
  "path_basename_ext p ext =
     (if ext \<noteq> [] \<and> length ext \<le> length p then
        (if ext = p then []
         else
           (let base = path_basename p
            in if suffix ext base \<and> ext \<noteq> base then take (length base - length ext) base
               else base))
      else path_basename p)"

subsection \<open>The message handler\<close>

definition MAX_PATH_LENGTH :: nat where
  "MAX_PATH_LENGTH = 256"

datatype emission =
  ToSocket string string
| ToAll jsval

datatype relay_result =
  Done "emission list"
| Uncaught string

text \<open>
  The rate limiting at the head of the handler. \<^verbatim>\<open>limitData\<close> refers to the object held
  by the map, so \<^verbatim>\<open>++limitData.count\<close> changes the entry of \<^verbatim>\<open>ipHash\<close> in place. The
  result is whether the message passes, and the table.
\<close>

definition rate_check ::
  "config \<Rightarrow> string \<Rightarrow> int \<Rightarrow> (string, limit_data) jsmap \<Rightarrow> bool \<times> (string, limit_data) jsmap" where
  "rate_check cfg ipHash now limits =
     (let limitData = Map_get limits ipHash;
          renew = (limitData = None \<or> now > expires (the limitData));
          limits1 =
            (if renew then
               Map_set ipHash \<lparr>count = 0, expires = now + 60000\<rparr>
                 (if Map_size limits \<ge> CACHE_LIMIT_IPS cfg then Map_delete_oldest limits
                  else limits)
             else limits);
          limitData1 = (if renew then \<lparr>count = 0, expires = now + 60000\<rparr> else the limitData);
          limitData2 = limitData1\<lparr>count := count limitData1 + 1\<rparr>
      in (\<not> count limitData2 > MAX_REQ_PER_MIN cfg, Map_set ipHash limitData2 limits1))"

text \<open>The \<^verbatim>\<open>setInterval\<close> sweep of the table.\<close>

definition sweep :: "int \<Rightarrow> (string, limit_data) jsmap \<Rightarrow> (string, limit_data) jsmap" where
  "sweep now limits = filter (\<lambda>e. \<not> now > expires (snd e)) limits"

text \<open>\<^verbatim>\<open>String(msg.name || 'file')\<close>\<close>

definition name_string :: "runtime \<Rightarrow> jsval \<Rightarrow> string option" where
  "name_string rt v =
     (if \<not> truthy v then Some ''file''
      else case v of JStr s \<Rightarrow> Some s | _ \<Rightarrow> to_String rt v)"

definition replace_unsafe_name :: "string \<Rightarrow> string" where
  "replace_unsafe_name s =
     map (\<lambda>c. if safe_char c \<or> c = CHR ''_'' then c else CHR ''_'') s"

text \<open>The MIME type and size of an inline blob, from its decoded bytes \<open>b\<close>.\<close>

definition inline_meta :: "(byte list \<Rightarrow> string option) \<Rightarrow> byte list \<Rightarrow> file_meta" where
  "inline_meta ft b =
     (let size = int (length b);
          mime = (case ft b of
                    Some m \<Rightarrow> m
                  | None \<Rightarrow> if isText b then ''text/plain'' else ''application/octet-stream'')
      in \<lparr>mime = mime, size_bytes = size\<rparr>)"

definition broadcast_file :: "jsval \<Rightarrow> file_meta \<Rightarrow> emission list" where
  "broadcast_file msg meta =
     [ToAll (put_prop ''size'' (JNum (of_int (size_bytes meta)))
              (put_prop ''fileType'' (JStr (mime meta)) msg))]"

text \<open>
  The branch of a \<^verbatim>\<open>file\<close> message, from the checks on \<^verbatim>\<open>msg.content\<close> on. The two
  tests of \<^verbatim>\<open>msg.content.startsWith\<close> and the conversion of the name stand before the
  \<^verbatim>\<open>try\<close>; what they throw leaves the handler. Nothing inside the \<^verbatim>\<open>try\<close> throws:
  \<^verbatim>\<open>detectFileMeta\<close> catches its own errors.
\<close>

definition relay_file :: "config \<Rightarrow> runtime \<Rightarrow> jsval \<Rightarrow> server \<Rightarrow> relay_result \<times> server" where
  "relay_file cfg rt msg s =
     (case get_prop msg ''content'' of
        JStr content \<Rightarrow>
          if \<not> prefix ''/uploads/'' content \<and> \<not> prefix ''data:'' content then (Done [], s)
          else if prefix ''/uploads/'' content \<and> length content > MAX_PATH_LENGTH then (Done [], s)
          else
            (case name_string rt (get_prop msg ''name'') of
               None \<Rightarrow> (Uncaught ''TypeError'', s)
             | Some base \<Rightarrow>
                 (let msg1 = put_prop ''name''
                        (JStr (collapse_underscores (replace_unsafe_name (basename rt base)))) msg
                  in if prefix ''/uploads/'' content then
                       (let filename = basename rt content;
                            r = getCachedFileMeta cfg rt filename (fileMetaCache s);
                            s1 = s\<lparr>fileMetaCache := snd r\<rparr>
                        in case fst r of
                             None \<Rightarrow> (Done [], s1)
                           | Some meta \<Rightarrow> (Done (broadcast_file msg1 meta), s1))
                     else
                       (let parts = split_on CHR '','' content
                        in if length parts < 2 then (Done [], s)
                           else
                             (let b = from_base64 rt (parts ! 1)
                              in (Done (broadcast_file msg1 (inline_meta (fileType rt) b)), s)))))
      | _ \<Rightarrow> (Uncaught ''TypeError'', s))"

text \<open>
  \<^verbatim>\<open>socket.on('message')\<close> for the socket \<open>socket_id\<close>, whose address hash is \<open>ipHash\<close>,
  at the time \<open>now\<close>. The handler is an \<^verbatim>\<open>async\<close> function that nobody awaits: what it
  throws is an unhandled rejection, on which Node ends the process.
\<close>

definition on_message ::
  "config \<Rightarrow> runtime \<Rightarrow> string \<Rightarrow> string \<Rightarrow> int \<Rightarrow> jsval \<Rightarrow> server \<Rightarrow> relay_result \<times> server" where
  "on_message cfg rt socket_id ipHash now msg s =
     (let rc = rate_check cfg ipHash now (ipRateLimits s);
          s1 = s\<lparr>ipRateLimits := snd rc\<rparr>
      in if \<not> fst rc then (Done [ToSocket ''error'' ''Rate limit exceeded''], s1)
         else if \<not> can_assign msg then (Uncaught ''TypeError'', s1)
         else
           (let msg1 = put_prop ''senderId'' (JStr socket_id) msg;
                msg2 = put_prop ''timestamp'' (JNum (of_int now)) msg1;
                h = Map_get (activeHues s1) socket_id;
                msg3 = put_prop ''hue'' (JNum (case h of Some hue \<Rightarrow> hue | None \<Rightarrow> 210)) msg2
            in if get_prop msg3 ''type'' = JStr ''text'' then
                 (case get_prop msg3 ''content'' of
                    JStr content \<Rightarrow>
                      if length content < 65536 then (Done [ToAll msg3], s1) else (Done [], s1)
                  | _ \<Rightarrow> (Done [], s1))
               else if get_prop msg3 ''type'' \<noteq> JStr ''file'' then (Done [], s1)
               else relay_file cfg rt msg3 s1))"

subsection \<open>Connections\<close>

text \<open>
  \<^verbatim>\<open>io.on('connection')\<close> up to the registration of the listeners, and the
  \<^verbatim>\<open>'disconnect'\<close> listener. \<open>sockets\<close> is \<^verbatim>\<open>io.sockets.sockets.size\<close>. The result
  of a connection is the hue sent in the \<^verbatim>\<open>session\<close> event, \<^term>\<open>None\<close> when the
  socket is disconnected at once.
\<close>

definition on_connection :: "config \<Rightarrow> int \<Rightarrow> string \<Rightarrow> server \<Rightarrow> rat option \<times> server" where
  "on_connection cfg sockets socket_id s =
     (if sockets > MAX_USERS cfg then (None, s)
      else
        (let hue = assignHue (activeHues s)
         in (Some hue, s\<lparr>activeHues := Map_set socket_id hue (activeHues s)\<rparr>)))"

definition on_disconnect :: "string \<Rightarrow> server \<Rightarrow> server" where
  "on_disconnect socket_id s = s\<lparr>activeHues := Map_delete socket_id (activeHues s)\<rparr>"

datatype session_event = Connect int string | Disconnect string

fun session_step :: "config \<Rightarrow> session_event \<Rightarrow> server \<Rightarrow> server" where
  "session_step cfg (Connect sockets socket_id) s = snd (on_connection cfg sockets socket_id s)"
| "session_step cfg (Disconnect socket_id) s = on_disconnect socket_id s"

text \<open>The events that reach the server after start-up, and a run of them.\<close>

datatype server_event =
  Message string string int jsval
| Sweep int
| Session session_event

fun server_step :: "config \<Rightarrow> runtime \<Rightarrow> server_event \<Rightarrow> server \<Rightarrow> server" where
  "server_step cfg rt (Message socket_id ipHash now msg) s =
     snd (on_message cfg rt socket_id ipHash now msg s)"
| "server_step cfg rt (Sweep now) s = s\<lparr>ipRateLimits := sweep now (ipRateLimits s)\<rparr>"
| "server_step cfg rt (Session ev) s = session_step cfg ev s"

text \<open>
  The answers to a burst of messages of one address at the times \<open>ts\<close>: for each message,
  whether it passes the rate limit.
\<close>

fun rate_checks :: "config \<Rightarrow> string \<Rightarrow> int list \<Rightarrow> (string, limit_data) jsmap \<Rightarrow> bool list" where
  "rate_checks cfg ipHash [] limits = []"
| "rate_checks cfg ipHash (t # ts) limits =
     fst (rate_check cfg ipHash t limits) #
       rate_checks cfg ipHash ts (snd (rate_check cfg ipHash t limits))"

text \<open>The table of the rate limiter has distinct keys and respects its capacity.\<close>

definition limits_ok :: "config \<Rightarrow> (string, limit_data) jsmap \<Rightarrow> bool" where
  "limits_ok cfg limits = (distinct (Map_keys limits) \<and> Map_size limits \<le> CACHE_LIMIT_IPS cfg)"


subsection \<open>Inserting a sequence of entries into the metadata cache\<close>

definition cache_all ::
  "config \<Rightarrow> (string \<times> file_meta) list \<Rightarrow> (string, file_meta) jsmap \<Rightarrow> (string, file_meta) jsmap" where
  "cache_all cfg kvs c = fold (\<lambda>kv. cacheFileMeta cfg (fst kv) (snd kv)) kvs c"

subsection \<open>Example data\<close>

text \<open>A small configuration and state on which the theorems below are evaluated.\<close>

definition example_config :: config where
  "example_config =
     \<lparr>CACHE_LIMIT_FILES = 2, CACHE_LIMIT_IPS = 2, DISK_RESERVED = 200, MAX_REQ_PER_MIN = 3,
      MAX_USERS = 100\<rparr>"

definition example_server :: server where
  "example_server =
     \<lparr>fileMetaCache = [], ipRateLimits = [], activeHues = [], pendingUploadBytes = 300\<rparr>"


definition example_random :: "byte list" where
  "example_random = [0, 1, 2, 3, 4, 5, 6, 255]"

text \<open>
  A runtime for the examples: a signature table that knows the PNG signature, one stored
  file, the functions of \<^verbatim>\<open>path\<close> as above, a decoder of the standard base64 alphabet,
  and \<^verbatim>\<open>String\<close> as it acts on a plain object.
\<close>

definition png_signature :: "byte list" where
  "png_signature = [0x89, 0x50, 0x4E, 0x47, 0x0D, 0x0A, 0x1A, 0x0A]"

definition example_fileType :: "byte list \<Rightarrow> string option" where
  "example_fileType bytes = (if prefix png_signature bytes then Some ''image/png'' else None)"

definition example_files :: "string \<rightharpoonup> byte list" where
  "example_files = [''/srv/uploads/00010203040506ff-notes.txt'' \<mapsto> [0x68, 0x69, 0x0A]]"

definition b64_value :: "char \<Rightarrow> nat option" where
  "b64_value c =
     (if is_upper c then Some (of_char c - 65)
      else if is_lower c then Some (of_char c - 97 + 26)
      else if is_digit c then Some (of_char c - 48 + 52)
      else if c = CHR ''+'' then Some 62
      else if c = CHR ''/'' then Some 63
      else None)"

fun b64_bytes :: "nat list \<Rightarrow> byte list" where
  "b64_bytes (a # b # c # d # rest) =
     of_nat (a * 4 + b div 16) # of_nat ((b mod 16) * 16 + c div 4) #
       of_nat ((c mod 4) * 64 + d) # b64_bytes rest"
| "b64_bytes [a, b, c] = [of_nat (a * 4 + b div 16), of_nat ((b mod 16) * 16 + c div 4)]"
| "b64_bytes [a, b] = [of_nat (a * 4 + b div 16)]"
| "b64_bytes rest = []"

definition example_base64 :: "string \<Rightarrow> byte list" where
  "example_base64 s = b64_bytes (map (\<lambda>c. the (b64_value c)) (filter (\<lambda>c. b64_value c \<noteq> None) s))"

definition example_runtime :: runtime where
  "example_runtime =
     \<lparr>fileType = example_fileType, files = example_files,
      upload_path = (\<lambda>name. ''/srv/uploads/'' @ name),
      basename = path_basename, basename_ext = path_basename_ext, extname = path_extname,
      from_base64 = example_base64, to_String = (\<lambda>v. Some ''[object Object]'')\<rparr>"

definition example_text :: jsval where
  "example_text =
     JObj [(''type'', JStr ''text''), (''content'', JStr ''hello''),
           (''senderId'', JStr ''somebody else''), (''tempId'', JStr ''t1'')]"




definition example_no_content :: jsval where
  "example_no_content = JObj [(''type'', JStr ''file'')]"

definition meta_png :: file_meta where
  "meta_png = \<lparr>mime = ''image/png'', size_bytes = 4\<rparr>"

text \<open>A cache filled to the limit of 1000: the keys are \<open>a\<close>, \<open>aa\<close>, \<open>aaa\<close>, ...\<close>

definition full_cache_rest :: "(string, file_meta) jsmap" where
  "full_cache_rest = map (\<lambda>i. (replicate (i + 2) CHR ''a'', meta_png)) [0..<999]"

definition full_cache :: "(string, file_meta) jsmap" where
  "full_cache = (''a'', meta_png) # full_cache_rest"

section \<open>Verified properties\<close>

subsection \<open>Upload admission and the pending-bytes ledger\<close>

lemma releaseSpace_untracked:
  "\<not> tracked r \<Longrightarrow> releaseSpace (r, s) = (r, s)"
  by (simp add: releaseSpace_def)

lemma releaseSpace_tracked:
  "tracked r \<Longrightarrow>
   releaseSpace (r, s) = (r\<lparr>tracked := False\<rparr>, s\<lparr>pendingUploadBytes := pendingUploadBytes s - req_len r\<rparr>)"
  by (simp add: releaseSpace_def)

lemma fold_fire_untracked:
  "\<not> tracked r \<Longrightarrow> fold fire sigs (r, s) = (r, s)"
  by (induction sigs) (simp_all add: fire_def releaseSpace_untracked)

lemma fold_fire_tracked:
  "tracked r \<Longrightarrow> sigs \<noteq> [] \<Longrightarrow>
   fold fire sigs (r, s) =
     (r\<lparr>tracked := False\<rparr>, s\<lparr>pendingUploadBytes := pendingUploadBytes s - req_len r\<rparr>)"
  by (cases sigs) (simp_all add: fire_def releaseSpace_tracked fold_fire_untracked)

lemma upload_post_request:
  "upload_post cfg rt err avail len file s = (res, s') \<Longrightarrow> request res = Some r \<Longrightarrow>
   tracked r \<and> len = Some (req_len r) \<and> pendingUploadBytes s' = pendingUploadBytes s + req_len r"
  by (auto simp: upload_post_def Let_def split: option.splits if_splits)

lemma upload_post_rejected:
  "upload_post cfg rt err avail len file s = (res, s') \<Longrightarrow> request res = None \<Longrightarrow> s' = s"
  by (auto simp: upload_post_def Let_def split: option.splits if_splits)

lemma in_flight_append: "in_flight (reqs @ [r]) = in_flight reqs + (if tracked r then req_len r else 0)"
  by (simp add: in_flight_def)

lemma in_flight_update:
  "i < length reqs \<Longrightarrow>
   in_flight (reqs[i := r']) =
     in_flight reqs - (if tracked (reqs ! i) then req_len (reqs ! i) else 0)
       + (if tracked r' then req_len r' else 0)"
proof (induction reqs arbitrary: i)
  case Nil
  then show ?case by simp
next
  case (Cons a reqs)
  then show ?case by (cases i) (simp_all add: in_flight_def)
qed

lemma upload_step_ledger:
  "upload_step cfg rt ev (reqs, s) = (reqs', s') \<Longrightarrow>
   pendingUploadBytes s' - in_flight reqs' = pendingUploadBytes s - in_flight reqs"
proof (cases ev)
  case (Post err avail len f)
  obtain res s1 where up: "upload_post cfg rt err avail len f s = (res, s1)"
    by (cases "upload_post cfg rt err avail len f s")
  assume st: "upload_step cfg rt ev (reqs, s) = (reqs', s')"
  show ?thesis
  proof (cases "request res")
    case None
    with st Post up upload_post_rejected [OF up None] show ?thesis by simp
  next
    case (Some r)
    with st Post up upload_post_request [OF up Some] show ?thesis
      by (auto simp: in_flight_append)
  qed
next
  case (Fire i sg)
  assume st: "upload_step cfg rt ev (reqs, s) = (reqs', s')"
  show ?thesis
  proof (cases "i < length reqs")
    case True
    with st Fire show ?thesis
      by (cases "tracked (reqs ! i)")
         (auto simp: fire_def releaseSpace_tracked releaseSpace_untracked in_flight_update)
  next
    case False
    with st Fire show ?thesis by simp
  qed
qed

lemma upload_run_ledger:
  "fold (upload_step cfg rt) evs (reqs, s) = (reqs', s') \<Longrightarrow>
   pendingUploadBytes s' - in_flight reqs' = pendingUploadBytes s - in_flight reqs"
proof (induction evs arbitrary: reqs s)
  case Nil
  then show ?case by simp
next
  case (Cons ev evs)
  obtain r1 s1 where st: "upload_step cfg rt ev (reqs, s) = (r1, s1)"
    by (cases "upload_step cfg rt ev (reqs, s)")
  with Cons.prems have "fold (upload_step cfg rt) evs (r1, s1) = (reqs', s')" by simp
  from Cons.IH [OF this] upload_step_ledger [OF st] show ?case by simp
qed

text \<open>
  C1. A request whose body multer stored without error is answered by the admission
  predicate alone: 411 \<^verbatim>\<open>Length Required\<close> when the declared length is no number or
  is not positive, otherwise 507 \<^verbatim>\<open>Storage full\<close> when it exceeds the available
  bytes less the reserve and the bytes in flight, and otherwise the request is admitted
  (the ledger grows by the declared length). A rejection leaves the state as it was.
\<close>

theorem upload_admission_decision:
  assumes "upload_post cfg rt None avail len f s = (r, s')"
  shows "if len = None \<or> the len \<le> 0 then
           status r = 411 \<and> body r = ''Length Required'' \<and> \<not> admitted r \<and> s' = s
         else if the len > avail - (DISK_RESERVED cfg + pendingUploadBytes s) then
           status r = 507 \<and> body r = ''Storage full'' \<and> \<not> admitted r \<and> s' = s
         else
           admitted r \<and> status r \<noteq> 411 \<and> status r \<noteq> 507 \<and>
           pendingUploadBytes s' = pendingUploadBytes s + the len"
  using assms
  by (auto simp: upload_post_def admitted_def Let_def split: option.splits if_splits)

text \<open>
  The example of the specification: 1000 bytes available, a reserve of 200 and 300 bytes in
  flight. A declared length of 501 is answered 507, one of 500 is admitted.
\<close>

theorem upload_admission_decision_witness:
  "status (fst (upload_post example_config example_runtime None 1000 (Some 501) None
      example_server)) = 507 \<and>
   admitted (fst (upload_post example_config example_runtime None 1000 (Some 500) None
      example_server))"
  using upload_admission_decision [of example_config example_runtime 1000 "Some 501" None
      example_server
      "fst (upload_post example_config example_runtime None 1000 (Some 501) None
        example_server)"
      "snd (upload_post example_config example_runtime None 1000 (Some 501) None
        example_server)"]
    upload_admission_decision [of example_config example_runtime 1000 "Some 500" None
      example_server
      "fst (upload_post example_config example_runtime None 1000 (Some 500) None
        example_server)"
      "snd (upload_post example_config example_runtime None 1000 (Some 500) None
        example_server)"]
  by (simp add: example_config_def example_server_def)

text \<open>
  C2. An admitted request adds its declared length to \<^verbatim>\<open>pendingUploadBytes\<close> once.
  Whatever signals of its response fire afterwards (finish, close, or both, in any number
  and order), the length is subtracted exactly once: after the first signal the request is
  no longer tracked and the counter is back at its value before the request. With many
  uploads interleaved, the counter is at every moment its initial value plus the declared
  lengths of the requests still tracked.
\<close>

theorem release_exactly_once:
  assumes "upload_post cfg rt err avail len f s = (res, s1)"
    and "request res = Some r"
  shows "pendingUploadBytes s1 = pendingUploadBytes s + req_len r \<and>
         (\<forall>sigs. sigs \<noteq> [] \<longrightarrow>
            pendingUploadBytes (snd (fold fire sigs (r, s1))) = pendingUploadBytes s \<and>
            \<not> tracked (fst (fold fire sigs (r, s1)))) \<and>
         (\<forall>sigs s2. sigs \<noteq> [] \<longrightarrow>
            pendingUploadBytes (snd (fold fire sigs (r, s2))) = pendingUploadBytes s2 - req_len r) \<and>
         (\<forall>evs s0 reqs' s'. fold (upload_step cfg rt) evs ([], s0) = (reqs', s') \<longrightarrow>
            pendingUploadBytes s' = pendingUploadBytes s0 + in_flight reqs')"
proof -
  from upload_post_request [OF assms]
  have tr: "tracked r" and inc: "pendingUploadBytes s1 = pendingUploadBytes s + req_len r"
    by simp_all
  have one: "\<And>sigs s2. sigs \<noteq> [] \<Longrightarrow>
      fold fire sigs (r, s2) =
        (r\<lparr>tracked := False\<rparr>, s2\<lparr>pendingUploadBytes := pendingUploadBytes s2 - req_len r\<rparr>)"
    using tr by (rule fold_fire_tracked)
  have ledger: "\<And>evs s0 reqs' s'.
      fold (upload_step cfg rt) evs ([], s0) = (reqs', s') \<Longrightarrow>
      pendingUploadBytes s' = pendingUploadBytes s0 + in_flight reqs'"
    using upload_run_ledger [of cfg rt _ "[]"] by (fastforce simp: in_flight_def)
  show ?thesis using inc one ledger by simp
qed

theorem release_exactly_once_witness:
  "pendingUploadBytes (snd (upload_post example_config example_runtime None 1000 (Some 500)
      None example_server)) = 800 \<and>
   pendingUploadBytes (snd (fold fire [Finish, Close]
     (\<lparr>req_len = 500, tracked = True\<rparr>,
      snd (upload_post example_config example_runtime None 1000 (Some 500) None
        example_server)))) = 300"
proof -
  have up: "upload_post example_config example_runtime None 1000 (Some 500) None
      example_server =
      (\<lparr>status = 500, body = ''Cannot read properties of undefined'',
        request = Some \<lparr>req_len = 500, tracked = True\<rparr>, unlinked = None\<rparr>,
       example_server\<lparr>pendingUploadBytes := 800\<rparr>)"
    by (simp add: upload_post_def example_config_def example_server_def)
  have rq: "request \<lparr>status = 500, body = ''Cannot read properties of undefined'',
        request = Some \<lparr>req_len = 500, tracked = True\<rparr>, unlinked = None\<rparr> =
      Some \<lparr>req_len = 500, tracked = True\<rparr>"
    by simp
  have sg: "[Finish, Close] \<noteq> []"
    by simp
  from release_exactly_once [OF up rq]
  have "pendingUploadBytes (snd (fold fire [Finish, Close]
          (\<lparr>req_len = 500, tracked = True\<rparr>, example_server\<lparr>pendingUploadBytes := 800\<rparr>))) =
        pendingUploadBytes example_server"
    using sg by blast
  then show ?thesis
    unfolding up by (simp add: example_server_def)
qed

subsection \<open>The insertion-ordered map and the metadata cache\<close>

lemma in_Map_keys: "(k, v) \<in> set m \<Longrightarrow> k \<in> set (Map_keys m)"
  by (force simp: Map_keys_def)

lemma Map_keys_set:
  "Map_keys (Map_set k v m) = (if k \<in> set (Map_keys m) then Map_keys m else Map_keys m @ [k])"
proof (induction m)
  case Nil
  show ?case by (simp add: Map_keys_def)
next
  case (Cons e m)
  obtain a b where e: "e = (a, b)" by (cases e)
  from Cons show ?case unfolding e by (auto simp: Map_keys_def)
qed

lemma Map_set_fresh: "k \<notin> set (Map_keys m) \<Longrightarrow> Map_set k v m = m @ [(k, v)]"
proof (induction m)
  case Nil
  show ?case by simp
next
  case (Cons e m)
  obtain a b where e: "e = (a, b)" by (cases e)
  from Cons show ?case unfolding e by (auto simp: Map_keys_def)
qed

lemma Map_get_set: "Map_get (Map_set k v m) k' = (if k' = k then Some v else Map_get m k')"
proof (induction m)
  case Nil
  show ?case by (simp add: Map_get_def)
next
  case (Cons e m)
  obtain a b where e: "e = (a, b)" by (cases e)
  from Cons show ?case unfolding e by (auto simp: Map_get_def)
qed

lemma Map_size_keys: "Map_size m = length (Map_keys m)"
  by (simp add: Map_size_def Map_keys_def)

lemma Map_has_keys: "Map_has m k \<longleftrightarrow> k \<in> set (Map_keys m)"
  by (simp add: Map_has_def Map_get_def Map_keys_def map_of_eq_None_iff)

lemma Map_delete_oldest_tl:
  "distinct (Map_keys m) \<Longrightarrow> Map_delete_oldest m = tl m"
proof (cases m)
  case Nil
  then show ?thesis by (simp add: Map_delete_oldest_def Map_keys_def)
next
  case (Cons e m')
  assume "distinct (Map_keys m)"
  with Cons have "fst e \<notin> set (Map_keys m')"
    by (simp add: Map_keys_def)
  then have "\<forall>x\<in>set m'. fst x \<noteq> fst e"
    by (metis in_Map_keys prod.collapse)
  then have "filter (\<lambda>x. fst x \<noteq> fst e) m' = m'"
    by (simp add: filter_id_conv)
  with Cons show ?thesis
    by (simp add: Map_delete_oldest_def Map_keys_def Map_delete_def)
qed

lemma Map_keys_tl: "Map_keys (tl m) = tl (Map_keys m)"
  by (simp add: Map_keys_def map_tl)

lemma Map_keys_append: "Map_keys (m @ n) = Map_keys m @ Map_keys n"
  by (simp add: Map_keys_def)


lemma cacheFileMeta_fresh:
  assumes "distinct (Map_keys c)" "k \<notin> set (Map_keys c)"
  shows "cacheFileMeta cfg k v c =
           (if Map_size c \<ge> CACHE_LIMIT_FILES cfg then tl c else c) @ [(k, v)]"
proof -
  have "k \<notin> set (Map_keys (tl c))"
    using assms(2) by (cases c) (simp_all add: Map_keys_def)
  then show ?thesis
    using assms by (simp add: cacheFileMeta_def Map_delete_oldest_tl Map_set_fresh)
qed

lemma cache_all_fresh:
  assumes "0 < CACHE_LIMIT_FILES cfg"
  shows "distinct (Map_keys c @ map fst kvs) \<Longrightarrow> Map_size c \<le> CACHE_LIMIT_FILES cfg \<Longrightarrow>
    cache_all cfg kvs c = drop (length c + length kvs - CACHE_LIMIT_FILES cfg) (c @ kvs)"
proof (induction kvs arbitrary: c)
  case Nil
  then show ?case by (simp add: cache_all_def Map_size_def)
next
  case (Cons kv kvs)
  define c0 where "c0 = (if Map_size c \<ge> CACHE_LIMIT_FILES cfg then tl c else c)"
  define c1 where "c1 = cacheFileMeta cfg (fst kv) (snd kv) c"
  define K where "K = map fst kvs"
  from Cons.prems(1) have d: "distinct (Map_keys c)" and f: "fst kv \<notin> set (Map_keys c)"
    and dk: "distinct K" and fk: "fst kv \<notin> set K"
    and dj: "set (Map_keys c) \<inter> set K = {}"
    unfolding K_def by auto
  have c1: "c1 = c0 @ [kv]"
    unfolding c1_def c0_def using cacheFileMeta_fresh [OF d f, of cfg "snd kv"] by simp
  have len0: "length c0 < CACHE_LIMIT_FILES cfg"
    using Cons.prems(2) assms unfolding c0_def by (auto simp: Map_size_def)
  then have sz: "Map_size c1 \<le> CACHE_LIMIT_FILES cfg"
    unfolding c1 by (simp add: Map_size_def)
  have sub: "set (Map_keys c0) \<subseteq> set (Map_keys c)"
    unfolding c0_def by (cases c) (auto simp: Map_keys_def)
  have d0: "distinct (Map_keys c0)"
    unfolding c0_def using d by (simp add: Map_keys_tl distinct_tl)
  have k1: "Map_keys c1 = Map_keys c0 @ [fst kv]"
    unfolding c1 by (simp add: Map_keys_def)
  have "distinct (Map_keys c0 @ [fst kv])"
    using d0 sub f by auto
  moreover have "set (Map_keys c0 @ [fst kv]) \<inter> set K = {}"
    using sub fk dj by auto
  ultimately have d1: "distinct (Map_keys c1 @ map fst kvs)"
    unfolding k1 K_def [symmetric] using dk by (simp only: distinct_append)
  have "cache_all cfg (kv # kvs) c = cache_all cfg kvs c1"
    by (simp add: cache_all_def c1_def)
  also have "\<dots> = drop (length c1 + length kvs - CACHE_LIMIT_FILES cfg) (c1 @ kvs)"
    by (rule Cons.IH [OF d1 sz])
  also have "\<dots> = drop (length c + length (kv # kvs) - CACHE_LIMIT_FILES cfg) (c @ kv # kvs)"
  proof (cases "Map_size c \<ge> CACHE_LIMIT_FILES cfg")
    case True
    with Cons.prems(2) have eq: "length c = CACHE_LIMIT_FILES cfg"
      by (simp add: Map_size_def)
    with assms obtain e c' where c: "c = e # c'" by (cases c) auto
    show ?thesis using True eq c unfolding c1 c0_def by (simp add: Map_size_def)
  next
    case False
    then show ?thesis unfolding c1 c0_def by (simp add: Map_size_def)
  qed
  finally show ?case .
qed

lemma cacheFileMeta_present:
  assumes "distinct (Map_keys c)" "k \<in> set (Map_keys c)"
      and "Map_size c < CACHE_LIMIT_FILES cfg \<or> k \<noteq> hd (Map_keys c)"
  shows "Map_keys (cacheFileMeta cfg k v c) =
           (if Map_size c \<ge> CACHE_LIMIT_FILES cfg then tl (Map_keys c) else Map_keys c)"
proof -
  have "k \<in> set (tl (Map_keys c))" if "k \<noteq> hd (Map_keys c)"
    using assms(2) that by (cases c) (auto simp: Map_keys_def)
  then show ?thesis
    using assms by (auto simp: cacheFileMeta_def Map_delete_oldest_tl Map_keys_set Map_keys_tl)
qed

lemma getCachedFileMeta_hit:
  "Map_has c k \<Longrightarrow> getCachedFileMeta cfg rt k c = (Map_get c k, c)"
  by (simp add: getCachedFileMeta_def)

lemma cacheFileMeta_oldest:
  assumes "distinct (Map_keys ((k, v0) # c))" "Map_size ((k, v0) # c) \<ge> CACHE_LIMIT_FILES cfg"
  shows "cacheFileMeta cfg k v ((k, v0) # c) = c @ [(k, v)]"
proof -
  from assms(1) have "k \<notin> set (Map_keys c)"
    by (simp add: Map_keys_def)
  then show ?thesis
    using assms by (simp add: cacheFileMeta_def Map_delete_oldest_tl Map_set_fresh)
qed

lemma full_cache_rest_keys:
  "Map_keys full_cache_rest = map (\<lambda>i. replicate (i + 2) CHR ''a'') [0..<999]"
  by (simp add: full_cache_rest_def Map_keys_def comp_def)

lemma full_cache_distinct: "distinct (Map_keys full_cache)"
proof -
  have "inj_on (\<lambda>i. replicate (i + 2) CHR ''a'') (set [0..<999])"
    by (rule inj_onI) (metis length_replicate add_right_cancel)
  then have "distinct (Map_keys full_cache_rest)"
    unfolding full_cache_rest_keys by (simp add: distinct_map)
  moreover have "''a'' \<notin> set (Map_keys full_cache_rest)"
  proof
    assume "''a'' \<in> set (Map_keys full_cache_rest)"
    then obtain i :: nat where "''a'' = replicate (i + 2) CHR ''a''"
      unfolding full_cache_rest_keys by auto
    then have "length ''a'' = length (replicate (i + 2) CHR ''a'')"
      by (rule arg_cong)
    then show False by simp
  qed
  ultimately show ?thesis
    by (simp add: full_cache_def Map_keys_def)
qed

lemma full_cache_size: "Map_size full_cache = 1000"
  by (simp add: full_cache_def full_cache_rest_def Map_size_def)

text \<open>
  C7, as stated, fails where it says that re-inserting a present key never changes that
  key's eviction order: \<^verbatim>\<open>cacheFileMeta\<close> evicts the oldest entry whenever the cache
  is at its limit, also when the key to insert is present. Re-inserting the oldest key
  \<open>a\<close> of a cache that holds 1000 entries removes it and appends it: it is now the last
  to be evicted, not the first.
\<close>

theorem reinsert_oldest_counterexample:
  "hd (Map_keys full_cache) = ''a'' \<and>
   Map_size full_cache = CACHE_LIMIT_FILES default_config \<and>
   cacheFileMeta default_config ''a'' meta_png full_cache = tl full_cache @ [(''a'', meta_png)]"
proof -
  have d: "distinct (Map_keys ((''a'', meta_png) # full_cache_rest))"
    using full_cache_distinct unfolding full_cache_def .
  have s: "CACHE_LIMIT_FILES default_config \<le> Map_size ((''a'', meta_png) # full_cache_rest)"
    using full_cache_size unfolding full_cache_def by (simp add: default_config_def)
  have "cacheFileMeta default_config ''a'' meta_png full_cache = tl full_cache @ [(''a'', meta_png)]"
    unfolding full_cache_def using cacheFileMeta_oldest [OF d s] by simp
  moreover have "hd (Map_keys full_cache) = ''a''"
    unfolding full_cache_def by (simp add: Map_keys_def)
  ultimately show ?thesis
    using full_cache_size by (simp add: default_config_def)
qed

text \<open>
  C7, amended. With a limit of at least one entry (it is 1000): inserting limit + 1
  distinct keys into the empty cache leaves exactly the entries after the first-inserted
  one, and any insertion of a new key into a cache at its limit removes exactly the oldest
  entry before appending. Re-inserting a present key keeps the order of the keys when the
  cache is below its limit; at the limit, when the key is not the oldest one, the oldest
  entry is evicted and the order of the remaining keys is kept. A lookup that hits returns
  the stored entry and leaves the cache as it is.
\<close>

theorem metadata_cache_fifo:
  assumes "0 < CACHE_LIMIT_FILES cfg"
  shows "(\<forall>kvs. distinct (map fst kvs) \<and> length kvs = CACHE_LIMIT_FILES cfg + 1 \<longrightarrow>
            cache_all cfg kvs [] = tl kvs) \<and>
         (\<forall>c k v. distinct (Map_keys c) \<and> k \<notin> set (Map_keys c) \<and>
              Map_size c = CACHE_LIMIT_FILES cfg \<longrightarrow>
            cacheFileMeta cfg k v c = tl c @ [(k, v)]) \<and>
         (\<forall>c k v. distinct (Map_keys c) \<and> k \<in> set (Map_keys c) \<and>
              Map_size c < CACHE_LIMIT_FILES cfg \<longrightarrow>
            Map_keys (cacheFileMeta cfg k v c) = Map_keys c) \<and>
         (\<forall>c k v. distinct (Map_keys c) \<and> k \<in> set (Map_keys c) \<and>
              Map_size c \<ge> CACHE_LIMIT_FILES cfg \<and> k \<noteq> hd (Map_keys c) \<longrightarrow>
            Map_keys (cacheFileMeta cfg k v c) = tl (Map_keys c)) \<and>
         (\<forall>rt c k. Map_has c k \<longrightarrow> getCachedFileMeta cfg rt k c = (Map_get c k, c))"
proof (intro conjI allI impI)
  fix kvs :: "(string \<times> file_meta) list"
  assume a: "distinct (map fst kvs) \<and> length kvs = CACHE_LIMIT_FILES cfg + 1"
  then have "distinct (Map_keys [] @ map fst kvs)" "Map_size ([] :: (string, file_meta) jsmap) \<le> CACHE_LIMIT_FILES cfg"
    by (simp_all add: Map_keys_def Map_size_def)
  from cache_all_fresh [OF assms this] a show "cache_all cfg kvs [] = tl kvs"
    by (simp add: drop_Suc)
next
  fix c :: "(string, file_meta) jsmap" and k v
  assume "distinct (Map_keys c) \<and> k \<notin> set (Map_keys c) \<and> Map_size c = CACHE_LIMIT_FILES cfg"
  then show "cacheFileMeta cfg k v c = tl c @ [(k, v)]"
    using cacheFileMeta_fresh [of c k cfg v] by simp
next
  fix c :: "(string, file_meta) jsmap" and k v
  assume "distinct (Map_keys c) \<and> k \<in> set (Map_keys c) \<and> Map_size c < CACHE_LIMIT_FILES cfg"
  then show "Map_keys (cacheFileMeta cfg k v c) = Map_keys c"
    using cacheFileMeta_present [of c k cfg v] by simp
next
  fix c :: "(string, file_meta) jsmap" and k v
  assume "distinct (Map_keys c) \<and> k \<in> set (Map_keys c) \<and>
     Map_size c \<ge> CACHE_LIMIT_FILES cfg \<and> k \<noteq> hd (Map_keys c)"
  then show "Map_keys (cacheFileMeta cfg k v c) = tl (Map_keys c)"
    using cacheFileMeta_present [of c k cfg v] by simp
next
  fix rt and c :: "(string, file_meta) jsmap" and k
  assume "Map_has c k"
  then show "getCachedFileMeta cfg rt k c = (Map_get c k, c)"
    by (rule getCachedFileMeta_hit)
qed

theorem metadata_cache_fifo_witness:
  "cache_all example_config [(''a'', meta_png), (''b'', meta_png), (''c'', meta_png)] [] =
     [(''b'', meta_png), (''c'', meta_png)] \<and>
   Map_keys (cacheFileMeta example_config ''b'' meta_png [(''a'', meta_png), (''b'', meta_png)]) =
     [''b'']"
proof -
  have cap: "0 < CACHE_LIMIT_FILES example_config"
    by (simp add: example_config_def)
  note th = metadata_cache_fifo [OF cap]
  have h1: "distinct (map fst [(''a'', meta_png), (''b'', meta_png), (''c'', meta_png)]) \<and>
      length [(''a'', meta_png), (''b'', meta_png), (''c'', meta_png)] =
        CACHE_LIMIT_FILES example_config + 1"
    by (simp add: example_config_def)
  have h2: "distinct (Map_keys [(''a'', meta_png), (''b'', meta_png)]) \<and>
      ''b'' \<in> set (Map_keys [(''a'', meta_png), (''b'', meta_png)]) \<and>
      Map_size [(''a'', meta_png), (''b'', meta_png)] \<ge> CACHE_LIMIT_FILES example_config \<and>
      ''b'' \<noteq> hd (Map_keys [(''a'', meta_png), (''b'', meta_png)])"
    by (simp add: example_config_def Map_keys_def Map_size_def)
  from th h1 have "cache_all example_config [(''a'', meta_png), (''b'', meta_png), (''c'', meta_png)] [] =
      tl [(''a'', meta_png), (''b'', meta_png), (''c'', meta_png)]"
    by blast
  moreover from th h2 have "Map_keys (cacheFileMeta example_config ''b'' meta_png
      [(''a'', meta_png), (''b'', meta_png)]) = tl (Map_keys [(''a'', meta_png), (''b'', meta_png)])"
    by blast
  ultimately show ?thesis
    by (simp add: Map_keys_def)
qed

subsection \<open>Hue assignment\<close>



















subsection \<open>Stored file names\<close>

lemma hex_digit_is_hex: "is_hex (hex_digit n)"
proof -
  have "n mod 16 < length ''0123456789abcdef''" by simp
  then have "''0123456789abcdef'' ! (n mod 16) \<in> set ''0123456789abcdef''"
    by (rule nth_mem)
  then show ?thesis by (simp only: is_hex_def hex_digit_def)
qed

lemma to_hex_length: "length (to_hex bs) = 2 * length bs"
  by (induction bs) (simp_all add: to_hex_def)

lemma to_hex_is_hex: "list_all is_hex (to_hex bs)"
  by (induction bs) (simp_all add: to_hex_def hex_digit_is_hex)

lemma collapse_hd: "\<exists>r. collapse_underscores (a # cs) = a # r"
  by (induction "a # cs" arbitrary: a cs rule: collapse_underscores.induct) auto

lemma collapse_set: "set (collapse_underscores s) \<subseteq> set s"
  by (induction s rule: collapse_underscores.induct) auto

lemma collapse_no_run: "\<not> sublist ''__'' (collapse_underscores s)"
proof (induction s rule: collapse_underscores.induct)
  case (1 a b cs)
  obtain r where r: "collapse_underscores (b # cs) = b # r"
    using collapse_hd by blast
  show ?case
  proof (cases "a = CHR ''_'' \<and> b = CHR ''_''")
    case True
    with 1 show ?thesis by simp
  next
    case False
    with 1 have ih: "\<not> sublist ''__'' (b # r)" by (simp add: r)
    from False have "\<not> prefix ''__'' (a # b # r)" by auto
    with ih have "\<not> sublist ''__'' (a # b # r)"
      by (simp add: sublist_Cons_right)
    moreover from False have "collapse_underscores (a # b # cs) = a # b # r"
      using r by auto
    ultimately show ?thesis by simp
  qed
qed (auto simp: sublist_Cons_right)

lemma strip_trailing_prefix: "prefix (strip_trailing s) s"
proof -
  have "suffix (dropWhile (\<lambda>c. c = CHR ''_'') (rev s)) (rev s)"
    by (rule suffix_dropWhile)
  then show ?thesis
    by (simp add: strip_trailing_def suffix_to_prefix)
qed

lemma strip_leading_suffix: "suffix (strip_leading s) s"
  by (simp add: strip_leading_def suffix_dropWhile)

lemma strip_trailing_last: "strip_trailing s \<noteq> [] \<Longrightarrow> last (strip_trailing s) \<noteq> CHR ''_''"
proof -
  assume ne: "strip_trailing s \<noteq> []"
  then have d: "dropWhile (\<lambda>c. c = CHR ''_'') (rev s) \<noteq> []"
    by (simp add: strip_trailing_def)
  from hd_dropWhile [OF d] have "hd (dropWhile (\<lambda>c. c = CHR ''_'') (rev s)) \<noteq> CHR ''_''" .
  with d show ?thesis
    by (simp add: strip_trailing_def last_rev)
qed

lemma strip_leading_hd: "strip_leading s \<noteq> [] \<Longrightarrow> hd (strip_leading s) \<noteq> CHR ''_''"
  unfolding strip_leading_def by (rule hd_dropWhile)

lemma prefix_hd: "prefix p q \<Longrightarrow> p \<noteq> [] \<Longrightarrow> hd p = hd q"
  by (auto simp: prefix_def)

lemma strip_trailing_id:
  "s \<noteq> [] \<Longrightarrow> last s \<noteq> CHR ''_'' \<Longrightarrow> strip_trailing s = s"
proof -
  assume "s \<noteq> []" "last s \<noteq> CHR ''_''"
  then have "rev s \<noteq> []" "hd (rev s) \<noteq> CHR ''_''"
    by (simp_all add: hd_rev)
  then have "dropWhile (\<lambda>c. c = CHR ''_'') (rev s) = rev s"
    by (cases "rev s") simp_all
  then show ?thesis by (simp add: strip_trailing_def)
qed

lemma strip_trailing_Nil: "strip_trailing [] = []"
  by (simp add: strip_trailing_def)

lemma safeName_of_eq:
  "safeName_of name =
     strip_trailing (take 100 (strip_trailing (strip_leading (collapse_underscores
       (replace_unsafe name)))))"
  by (simp add: safeName_of_def Let_def)

lemma safeName_of_chain:
  fixes name :: string
  defines "s2 \<equiv> collapse_underscores (replace_unsafe name)"
  shows "prefix (safeName_of name) (strip_leading s2)"
proof -
  have "prefix (safeName_of name) (take 100 (strip_trailing (strip_leading s2)))"
    unfolding safeName_of_eq s2_def by (rule strip_trailing_prefix)
  also have "prefix \<dots> (strip_trailing (strip_leading s2))"
    by (rule take_is_prefix)
  also have "prefix \<dots> (strip_leading s2)"
    by (rule strip_trailing_prefix)
  finally show ?thesis .
qed

lemma safeName_of_length: "length (safeName_of name) \<le> 100"
proof -
  have "length (safeName_of name) \<le>
      length (take 100 (strip_trailing (strip_leading (collapse_underscores (replace_unsafe name)))))"
    unfolding safeName_of_eq by (rule prefix_length_le [OF strip_trailing_prefix])
  then show ?thesis by simp
qed

lemma safeName_of_sublist:
  "sublist (safeName_of name) (collapse_underscores (replace_unsafe name))"
proof -
  have "sublist (safeName_of name) (strip_leading (collapse_underscores (replace_unsafe name)))"
    using safeName_of_chain by (rule prefix_imp_sublist)
  moreover have "sublist (strip_leading (collapse_underscores (replace_unsafe name)))
      (collapse_underscores (replace_unsafe name))"
    using strip_leading_suffix by (rule suffix_imp_sublist)
  ultimately show ?thesis by (rule sublist_order.order.trans)
qed

lemma safeName_of_chars: "c \<in> set (safeName_of name) \<Longrightarrow> safe_char c \<or> c = CHR ''_''"
proof -
  assume "c \<in> set (safeName_of name)"
  with set_mono_sublist [OF safeName_of_sublist] collapse_set
  have "c \<in> set (replace_unsafe name)" by blast
  then show ?thesis by (auto simp: replace_unsafe_def)
qed

lemma safeName_of_no_run: "\<not> sublist ''__'' (safeName_of name)"
  using collapse_no_run safeName_of_sublist sublist_order.order.trans by blast

lemma safeName_of_edges:
  assumes "safeName_of name \<noteq> []"
  shows "hd (safeName_of name) \<noteq> CHR ''_''" "last (safeName_of name) \<noteq> CHR ''_''"
proof -
  from assms show "last (safeName_of name) \<noteq> CHR ''_''"
    unfolding safeName_of_eq by (rule strip_trailing_last)
  let ?l = "strip_leading (collapse_underscores (replace_unsafe name))"
  from safeName_of_chain have p: "prefix (safeName_of name) ?l" .
  with assms have "?l \<noteq> []" by auto
  then have "hd ?l \<noteq> CHR ''_''" by (rule strip_leading_hd)
  with prefix_hd [OF p assms] show "hd (safeName_of name) \<noteq> CHR ''_''" by simp
qed

lemma safe_char_not_underscore: "safe_char c \<Longrightarrow> c \<noteq> CHR ''_''"
  by (auto simp: safe_char_def is_lower_def is_upper_def is_digit_def)

lemma collapse_clean: "CHR ''_'' \<notin> set s \<Longrightarrow> collapse_underscores s = s"
  by (induction s rule: collapse_underscores.induct) auto

lemma safeName_of_clean:
  assumes "\<forall>c\<in>set name. safe_char c" "length name \<le> 100"
  shows "safeName_of name = name"
proof (cases "name = []")
  case True
  then show ?thesis
    by (simp add: safeName_of_eq replace_unsafe_def strip_leading_def strip_trailing_Nil)
next
  case False
  from assms(1) have u: "CHR ''_'' \<notin> set name"
    using safe_char_not_underscore by blast
  from assms(1) have r: "replace_unsafe name = name"
    by (simp add: replace_unsafe_def map_idI)
  from u False have "hd name \<noteq> CHR ''_''" "last name \<noteq> CHR ''_''"
    by (metis hd_in_set, metis last_in_set)
  then have "strip_leading name = name" "strip_trailing name = name"
    using False by (cases name, simp_all add: strip_leading_def strip_trailing_id)
  with r u assms(2) show ?thesis
    by (simp add: safeName_of_eq collapse_clean)
qed

text \<open>
  C9, as stated, fails on the character class: the regular expression carries the flag
  \<^verbatim>\<open>i\<close>, so upper-case letters are kept. For the upload \<^verbatim>\<open>A.txt\<close> the stored name
  ends in \<^verbatim>\<open>-A.txt\<close>; replacing what lies outside \<^verbatim>\<open>[a-z0-9.-]\<close> would give
  \<^verbatim>\<open>-.txt\<close>.
\<close>

theorem uppercase_kept_counterexample:
  "upload_filename example_runtime example_random ''A.txt'' =
     ''00010203040506ff-A.txt'' \<and>
   to_hex example_random @ ''-'' @
     spec_sanitize (path_basename_ext ''A.txt'' (path_extname ''A.txt'')) @ path_extname ''A.txt'' =
     ''00010203040506ff-.txt''"
  by code_simp

text \<open>
  C9, amended. The stored name is the 16 hexadecimal digits of the 8 random bytes, a
  hyphen, the sanitized base name and the original extension. The sanitized base name is
  obtained by replacing every character that is no ASCII letter (of either case), digit,
  dot or hyphen by an underscore, collapsing runs of underscores, trimming underscores at
  both edges, truncating to 100 characters and trimming the underscores the truncation
  left at the end. So it has at most 100 characters, all of them letters, digits, dots,
  hyphens or underscores, no two underscores in a row and none at either edge; and a base
  name of at most 100 letters, digits, dots and hyphens is kept as it is.
\<close>

theorem upload_filename_format:
  "upload_filename rt random originalname =
     to_hex random @ ''-'' @ safeName_of (basename_ext rt originalname (extname rt originalname)) @
       extname rt originalname \<and>
   (length random = 8 \<longrightarrow> length (to_hex random) = 16) \<and>
   list_all is_hex (to_hex random) \<and>
   safeName_of name =
     strip_trailing (take 100 (strip_trailing (strip_leading (collapse_underscores
       (map (\<lambda>c. if is_lower c \<or> is_upper c \<or> is_digit c \<or> c = CHR ''.'' \<or> c = CHR ''-''
                   then c else CHR ''_'') name))))) \<and>
   length (safeName_of name) \<le> 100 \<and>
   (\<forall>c\<in>set (safeName_of name). safe_char c \<or> c = CHR ''_'') \<and>
   \<not> sublist ''__'' (safeName_of name) \<and>
   (safeName_of name \<noteq> [] \<longrightarrow>
      hd (safeName_of name) \<noteq> CHR ''_'' \<and> last (safeName_of name) \<noteq> CHR ''_'') \<and>
   ((\<forall>c\<in>set name. safe_char c) \<and> length name \<le> 100 \<longrightarrow> safeName_of name = name)"
proof (intro conjI impI)
  show "upload_filename rt random originalname =
     to_hex random @ ''-'' @ safeName_of (basename_ext rt originalname (extname rt originalname)) @
       extname rt originalname"
    by (simp add: upload_filename_def Let_def)
  show "length (to_hex random) = 16" if "length random = 8"
    using that by (simp add: to_hex_length)
  show "list_all is_hex (to_hex random)"
    by (rule to_hex_is_hex)
  show "safeName_of name =
     strip_trailing (take 100 (strip_trailing (strip_leading (collapse_underscores
       (map (\<lambda>c. if is_lower c \<or> is_upper c \<or> is_digit c \<or> c = CHR ''.'' \<or> c = CHR ''-''
                   then c else CHR ''_'') name)))))"
    by (simp add: safeName_of_eq replace_unsafe_def safe_char_def)
  show "length (safeName_of name) \<le> 100"
    by (rule safeName_of_length)
  show "\<forall>c\<in>set (safeName_of name). safe_char c \<or> c = CHR ''_''"
    using safeName_of_chars by blast
  show "\<not> sublist ''__'' (safeName_of name)"
    by (rule safeName_of_no_run)
  show "hd (safeName_of name) \<noteq> CHR ''_''" "last (safeName_of name) \<noteq> CHR ''_''"
    if "safeName_of name \<noteq> []"
    using safeName_of_edges [OF that] by simp_all
  show "safeName_of name = name" if "(\<forall>c\<in>set name. safe_char c) \<and> length name \<le> 100"
    using that safeName_of_clean by blast
qed

theorem upload_filename_format_witness:
  "length (to_hex example_random) = 16 \<and>
   upload_filename example_runtime example_random ''My Report (final).PDF'' =
     ''00010203040506ff-My_Report_final.PDF'' \<and>
   hd (safeName_of ''My Report (final)'') \<noteq> CHR ''_'' \<and>
   last (safeName_of ''My Report (final)'') \<noteq> CHR ''_'' \<and>
   safeName_of ''Report-2.v1'' = ''Report-2.v1''"
proof -
  note th = upload_filename_format [of example_runtime example_random
      "''My Report (final).PDF''" "''My Report (final)''"]
    upload_filename_format [of example_runtime example_random
      "''My Report (final).PDF''" "''Report-2.v1''"]
  have h1: "length example_random = 8"
    by (simp add: example_random_def)
  have h2: "safeName_of ''My Report (final)'' \<noteq> []"
    by code_simp
  have h3: "(\<forall>c\<in>set ''Report-2.v1''. safe_char c) \<and> length ''Report-2.v1'' \<le> 100"
    by code_simp
  have v: "upload_filename example_runtime example_random ''My Report (final).PDF'' =
     ''00010203040506ff-My_Report_final.PDF''"
    by code_simp
  from th h1 h2 h3 v show ?thesis
    by blast
qed

subsection \<open>The rate limiter\<close>

lemma Map_set_twice: "Map_set k v (Map_set k w m) = Map_set k v m"
proof (induction m)
  case Nil
  show ?case by simp
next
  case (Cons e m)
  obtain a b where e: "e = (a, b)" by (cases e)
  from Cons show ?case unfolding e by simp
qed

lemma Map_size_set_le: "Map_size (Map_set k v m) \<le> Suc (Map_size m)"
  by (simp add: Map_size_keys Map_keys_set)

lemma Map_size_set_present: "Map_get m k = Some w \<Longrightarrow> Map_size (Map_set k v m) = Map_size m"
proof -
  assume "Map_get m k = Some w"
  then have "k \<in> set (Map_keys m)"
    using Map_has_keys [of m k] by (simp add: Map_has_def)
  then show ?thesis by (simp add: Map_size_keys Map_keys_set)
qed

lemma Map_size_delete_oldest: "m \<noteq> [] \<Longrightarrow> Map_size (Map_delete_oldest m) < Map_size m"
proof -
  assume "m \<noteq> []"
  then obtain e m' where m: "m = e # m'" by (cases m) auto
  have "length (filter (\<lambda>x. fst x \<noteq> fst e) m') < Suc (length m')"
    by (rule le_imp_less_Suc [OF length_filter_le])
  then show ?thesis
    by (simp add: m Map_delete_oldest_def Map_keys_def Map_delete_def Map_size_def)
qed

lemma distinct_Map_keys_set: "distinct (Map_keys m) \<Longrightarrow> distinct (Map_keys (Map_set k v m))"
  by (simp add: Map_keys_set)

lemma distinct_Map_keys_filter: "distinct (Map_keys m) \<Longrightarrow> distinct (Map_keys (filter P m))"
  by (simp add: Map_keys_def distinct_map_filter)

lemma distinct_Map_keys_delete_oldest:
  "distinct (Map_keys m) \<Longrightarrow> distinct (Map_keys (Map_delete_oldest m))"
  by (simp add: Map_delete_oldest_tl Map_keys_tl distinct_tl)

text \<open>The two cases of the rate limiter.\<close>

lemma rate_check_live:
  assumes "Map_get limits ip = Some ld" "\<not> now > expires ld"
  shows "rate_check cfg ip now limits =
    (count ld + 1 \<le> MAX_REQ_PER_MIN cfg, Map_set ip (ld\<lparr>count := count ld + 1\<rparr>) limits)"
  using assms by (simp add: rate_check_def Let_def not_less)

lemma rate_check_renew:
  assumes "Map_get limits ip = None \<or> now > expires (the (Map_get limits ip))"
  shows "rate_check cfg ip now limits =
    (1 \<le> MAX_REQ_PER_MIN cfg,
     Map_set ip \<lparr>count = 1, expires = now + 60000\<rparr>
       (if Map_size limits \<ge> CACHE_LIMIT_IPS cfg then Map_delete_oldest limits else limits))"
  using assms by (auto simp: rate_check_def Let_def Map_set_twice not_less)

lemma rate_check_cases:
  obtains (live) ld where "Map_get limits ip = Some ld" "\<not> now > expires ld"
  | (renew) "Map_get limits ip = None \<or> now > expires (the (Map_get limits ip))"
  by (cases "Map_get limits ip") auto

lemma rate_checks_live:
  "Map_get limits ip = Some ld \<Longrightarrow> \<forall>t\<in>set ts. t \<le> expires ld \<Longrightarrow>
   length (rate_checks cfg ip ts limits) = length ts \<and>
   (\<forall>k<length ts. rate_checks cfg ip ts limits ! k = (count ld + int k + 1 \<le> MAX_REQ_PER_MIN cfg))"
proof (induction ts arbitrary: limits ld)
  case Nil
  show ?case by simp
next
  case (Cons t ts)
  from Cons.prems have t: "\<not> t > expires ld" by auto
  let ?ld = "ld\<lparr>count := count ld + 1\<rparr>"
  note rc = rate_check_live [OF Cons.prems(1) t, of cfg]
  have g: "Map_get (Map_set ip ?ld limits) ip = Some ?ld"
    by (simp add: Map_get_set)
  have w: "\<forall>t\<in>set ts. t \<le> expires ?ld"
    using Cons.prems(2) by simp
  from Cons.IH [OF g w]
  have ih: "length (rate_checks cfg ip ts (Map_set ip ?ld limits)) = length ts"
    "\<forall>k<length ts. rate_checks cfg ip ts (Map_set ip ?ld limits) ! k =
        (count ld + 1 + int k + 1 \<le> MAX_REQ_PER_MIN cfg)"
    by simp_all
  have "rate_checks cfg ip (t # ts) limits ! k = (count ld + int k + 1 \<le> MAX_REQ_PER_MIN cfg)"
    if "k < length (t # ts)" for k
  proof (cases k)
    case 0
    then show ?thesis by (simp add: rc)
  next
    case (Suc j)
    with that have "j < length ts" by simp
    with ih(2) Suc show ?thesis by (simp add: rc algebra_simps)
  qed
  with ih(1) show ?case by (simp add: rc)
qed

lemma rate_checks_window:
  assumes "Map_get limits ip = None \<or> t1 > expires (the (Map_get limits ip))"
      and "\<forall>t\<in>set ts. t \<le> t1 + 60000"
  shows "length (rate_checks cfg ip (t1 # ts) limits) = Suc (length ts)"
    and "k < Suc (length ts) \<Longrightarrow>
           rate_checks cfg ip (t1 # ts) limits ! k = (int k + 1 \<le> MAX_REQ_PER_MIN cfg)"
proof -
  let ?ld = "\<lparr>count = 1, expires = t1 + 60000\<rparr>"
  let ?l0 = "if Map_size limits \<ge> CACHE_LIMIT_IPS cfg then Map_delete_oldest limits else limits"
  note rc = rate_check_renew [OF assms(1), of cfg]
  have g: "Map_get (Map_set ip ?ld ?l0) ip = Some ?ld"
    by (simp add: Map_get_set)
  have w: "\<forall>t\<in>set ts. t \<le> expires ?ld"
    using assms(2) by simp
  from rate_checks_live [OF g w, of cfg]
  have ih: "length (rate_checks cfg ip ts (Map_set ip ?ld ?l0)) = length ts"
    "\<forall>k<length ts. rate_checks cfg ip ts (Map_set ip ?ld ?l0) ! k =
        (1 + int k + 1 \<le> MAX_REQ_PER_MIN cfg)"
    by simp_all
  from ih(1) show "length (rate_checks cfg ip (t1 # ts) limits) = Suc (length ts)"
    by (simp add: rc)
  show "rate_checks cfg ip (t1 # ts) limits ! k = (int k + 1 \<le> MAX_REQ_PER_MIN cfg)"
    if "k < Suc (length ts)"
  proof (cases k)
    case 0
    then show ?thesis by (simp add: rc)
  next
    case (Suc j)
    with that have "j < length ts" by simp
    with ih(2) Suc show ?thesis by (simp add: rc algebra_simps)
  qed
qed

lemma on_message_limits:
  "ipRateLimits (snd (on_message cfg rt sid ip now msg s)) = snd (rate_check cfg ip now (ipRateLimits s))"
  by (auto simp: on_message_def relay_file_def Let_def split: jsval.splits option.splits)

lemma on_message_rejected:
  "\<not> fst (rate_check cfg ip now (ipRateLimits s)) \<Longrightarrow>
   on_message cfg rt sid ip now msg s =
     (Done [ToSocket ''error'' ''Rate limit exceeded''],
      s\<lparr>ipRateLimits := snd (rate_check cfg ip now (ipRateLimits s))\<rparr>)"
  by (simp add: on_message_def Let_def)

lemma relay_file_no_error:
  "fst (relay_file cfg rt msg s) \<noteq> Done [ToSocket ev txt]"
  by (auto simp: relay_file_def Let_def broadcast_file_def split: jsval.splits option.splits)

lemma on_message_passed:
  "fst (rate_check cfg ip now (ipRateLimits s)) \<Longrightarrow>
   fst (on_message cfg rt sid ip now msg s) \<noteq> Done [ToSocket ev txt]"
  by (auto simp: on_message_def Let_def relay_file_no_error split: jsval.splits)

text \<open>
  C3. A burst of messages of one address that starts a window at \<open>t1\<close> (no window of the
  address is alive then) and stays within its 60 000 ms: the \<open>k\<close>-th message passes
  exactly when \<open>k\<close> is at most the ceiling, so the first \<open>ceiling\<close> messages pass and the
  next one is rejected. In general a message in a live window with count \<open>c\<close> passes
  exactly when \<open>c + 1\<close> is at most the ceiling, and the count is incremented either way.
  A rejected message makes the handler emit \<^verbatim>\<open>error\<close> to the sending socket and nothing
  else, and changes nothing but the table; a message that passes never produces that
  answer. A message that arrives when \<^verbatim>\<open>expires\<close> has passed starts a new window with
  count 1 and passes (the ceiling being at least 1).
\<close>

theorem rate_limit_window:
  "((Map_get limits ipHash = None \<or> t1 > expires (the (Map_get limits ipHash))) \<and>
    (\<forall>t\<in>set ts. t \<le> t1 + 60000) \<longrightarrow>
      length (rate_checks cfg ipHash (t1 # ts) limits) = Suc (length ts) \<and>
      (\<forall>k<Suc (length ts).
         rate_checks cfg ipHash (t1 # ts) limits ! k = (int k + 1 \<le> MAX_REQ_PER_MIN cfg))) \<and>
   (Map_get limits ipHash = Some ld \<and> \<not> now > expires ld \<longrightarrow>
      fst (rate_check cfg ipHash now limits) = (count ld + 1 \<le> MAX_REQ_PER_MIN cfg) \<and>
      Map_get (snd (rate_check cfg ipHash now limits)) ipHash = Some (ld\<lparr>count := count ld + 1\<rparr>)) \<and>
   (\<not> fst (rate_check cfg ipHash now (ipRateLimits s)) \<longrightarrow>
      on_message cfg rt socket_id ipHash now msg s =
        (Done [ToSocket ''error'' ''Rate limit exceeded''],
         s\<lparr>ipRateLimits := snd (rate_check cfg ipHash now (ipRateLimits s))\<rparr>)) \<and>
   (fst (rate_check cfg ipHash now (ipRateLimits s)) \<longrightarrow>
      fst (on_message cfg rt socket_id ipHash now msg s) \<noteq>
        Done [ToSocket ''error'' ''Rate limit exceeded'']) \<and>
   (Map_get limits ipHash = Some ld \<and> now > expires ld \<and> 1 \<le> MAX_REQ_PER_MIN cfg \<longrightarrow>
      fst (rate_check cfg ipHash now limits) \<and>
      Map_get (snd (rate_check cfg ipHash now limits)) ipHash =
        Some \<lparr>count = 1, expires = now + 60000\<rparr>)"
proof (intro conjI impI)
  assume a: "(Map_get limits ipHash = None \<or> t1 > expires (the (Map_get limits ipHash))) \<and>
    (\<forall>t\<in>set ts. t \<le> t1 + 60000)"
  then have r: "Map_get limits ipHash = None \<or> t1 > expires (the (Map_get limits ipHash))"
    and w: "\<forall>t\<in>set ts. t \<le> t1 + 60000"
    by simp_all
  show "length (rate_checks cfg ipHash (t1 # ts) limits) = Suc (length ts)"
    by (rule rate_checks_window(1) [OF r w])
  show "\<forall>k<Suc (length ts).
       rate_checks cfg ipHash (t1 # ts) limits ! k = (int k + 1 \<le> MAX_REQ_PER_MIN cfg)"
    using rate_checks_window(2) [OF r w] by blast
next
  assume a: "Map_get limits ipHash = Some ld \<and> \<not> now > expires ld"
  then have rc: "rate_check cfg ipHash now limits =
      (count ld + 1 \<le> MAX_REQ_PER_MIN cfg, Map_set ipHash (ld\<lparr>count := count ld + 1\<rparr>) limits)"
    by (simp add: rate_check_live)
  show "fst (rate_check cfg ipHash now limits) = (count ld + 1 \<le> MAX_REQ_PER_MIN cfg)"
    by (simp add: rc)
  show "Map_get (snd (rate_check cfg ipHash now limits)) ipHash = Some (ld\<lparr>count := count ld + 1\<rparr>)"
    by (simp add: rc Map_get_set)
next
  assume "\<not> fst (rate_check cfg ipHash now (ipRateLimits s))"
  then show "on_message cfg rt socket_id ipHash now msg s =
        (Done [ToSocket ''error'' ''Rate limit exceeded''],
         s\<lparr>ipRateLimits := snd (rate_check cfg ipHash now (ipRateLimits s))\<rparr>)"
    by (rule on_message_rejected)
next
  assume "fst (rate_check cfg ipHash now (ipRateLimits s))"
  then show "fst (on_message cfg rt socket_id ipHash now msg s) \<noteq>
        Done [ToSocket ''error'' ''Rate limit exceeded'']"
    by (rule on_message_passed)
next
  assume a: "Map_get limits ipHash = Some ld \<and> now > expires ld \<and> 1 \<le> MAX_REQ_PER_MIN cfg"
  then have "Map_get limits ipHash = None \<or> now > expires (the (Map_get limits ipHash))"
    by simp
  from rate_check_renew [OF this, of cfg] a
  show "fst (rate_check cfg ipHash now limits)"
    "Map_get (snd (rate_check cfg ipHash now limits)) ipHash =
        Some \<lparr>count = 1, expires = now + 60000\<rparr>"
    by (simp_all add: Map_get_set)
qed

theorem rate_limit_window_witness:
  "rate_checks example_config ''abcd1234'' [0, 10, 20, 60000] [] = [True, True, True, False] \<and>
   on_message example_config example_runtime ''sock1'' ''abcd1234'' 60000 example_text
     (example_server\<lparr>ipRateLimits := [(''abcd1234'', \<lparr>count = 3, expires = 60000\<rparr>)]\<rparr>) =
     (Done [ToSocket ''error'' ''Rate limit exceeded''],
      example_server\<lparr>ipRateLimits := [(''abcd1234'', \<lparr>count = 4, expires = 60000\<rparr>)]\<rparr>) \<and>
   rate_check example_config ''abcd1234'' 60001 [(''abcd1234'', \<lparr>count = 4, expires = 60000\<rparr>)] =
     (True, [(''abcd1234'', \<lparr>count = 1, expires = 120001\<rparr>)])"
proof -
  let ?s = "example_server\<lparr>ipRateLimits := [(''abcd1234'', \<lparr>count = 3, expires = 60000\<rparr>)]\<rparr>"
  note th = rate_limit_window [of "[]" "''abcd1234''" 0 "[10, 20, 60000]" example_config
      "\<lparr>count = 3, expires = 60000\<rparr>" 60000 ?s example_runtime "''sock1''" example_text]
  note th2 = rate_limit_window [of "[(''abcd1234'', \<lparr>count = 4, expires = 60000\<rparr>)]" "''abcd1234''" 0
      "[]" example_config "\<lparr>count = 4, expires = 60000\<rparr>" 60001 ?s example_runtime "''sock1''"
      example_text]
  have h1: "(Map_get [] ''abcd1234'' = (None :: limit_data option) \<or>
      0 > expires (the (Map_get [] ''abcd1234''))) \<and>
      (\<forall>t\<in>set [10, 20, 60000 :: int]. t \<le> 0 + 60000)"
    by (simp add: Map_get_def)
  have h2: "\<not> fst (rate_check example_config ''abcd1234'' 60000 (ipRateLimits ?s))"
    by (simp add: rate_check_def Map_get_def Map_size_def example_config_def example_server_def)
  have h3: "Map_get [(''abcd1234'', \<lparr>count = 4, expires = 60000\<rparr>)] ''abcd1234'' =
      Some \<lparr>count = 4, expires = 60000\<rparr> \<and>
      60001 > expires \<lparr>count = 4, expires = 60000\<rparr> \<and> 1 \<le> MAX_REQ_PER_MIN example_config"
    by (simp add: Map_get_def example_config_def)
  have v1: "rate_checks example_config ''abcd1234'' [0, 10, 20, 60000] [] = [True, True, True, False]"
    by (simp add: rate_check_def Map_get_def Map_size_def example_config_def)
  have v2: "snd (rate_check example_config ''abcd1234'' 60000 (ipRateLimits ?s)) =
      [(''abcd1234'', \<lparr>count = 4, expires = 60000\<rparr>)]"
    by (simp add: rate_check_def Map_get_def Map_size_def example_config_def example_server_def)
  have v3: "snd (rate_check example_config ''abcd1234'' 60001
      [(''abcd1234'', \<lparr>count = 4, expires = 60000\<rparr>)]) =
      [(''abcd1234'', \<lparr>count = 1, expires = 120001\<rparr>)]"
    by (simp add: rate_check_def Map_get_def Map_size_def example_config_def)
  from th h1 have "length (rate_checks example_config ''abcd1234'' [0, 10, 20, 60000] []) = 4"
    by simp
  moreover from th h2 have "on_message example_config example_runtime ''sock1'' ''abcd1234'' 60000
      example_text ?s =
      (Done [ToSocket ''error'' ''Rate limit exceeded''],
       ?s\<lparr>ipRateLimits := snd (rate_check example_config ''abcd1234'' 60000 (ipRateLimits ?s))\<rparr>)"
    by blast
  moreover from th2 h3 have "fst (rate_check example_config ''abcd1234'' 60001
      [(''abcd1234'', \<lparr>count = 4, expires = 60000\<rparr>)])"
    by blast
  ultimately show ?thesis
    using v1 v2 v3 by (simp add: prod_eq_iff)
qed

lemma Map_set_ok:
  assumes "distinct (Map_keys m)" "Map_size m < n \<or> (k \<in> set (Map_keys m) \<and> Map_size m \<le> n)"
  shows "distinct (Map_keys (Map_set k v m)) \<and> Map_size (Map_set k v m) \<le> n"
  using assms by (auto simp: Map_size_keys Map_keys_set)

lemma rate_check_ok:
  assumes cap: "0 < CACHE_LIMIT_IPS cfg" and ok: "limits_ok cfg limits"
  shows "limits_ok cfg (snd (rate_check cfg ip now limits))"
proof (cases rule: rate_check_cases [of limits ip now])
  case (live ld)
  from live(1) have "ip \<in> set (Map_keys limits)"
    using Map_has_keys [of limits ip] by (simp add: Map_has_def)
  with ok have "distinct (Map_keys limits)"
    "Map_size limits < CACHE_LIMIT_IPS cfg \<or>
       (ip \<in> set (Map_keys limits) \<and> Map_size limits \<le> CACHE_LIMIT_IPS cfg)"
    by (simp_all add: limits_ok_def)
  from Map_set_ok [OF this] show ?thesis
    unfolding rate_check_live [OF live] limits_ok_def by simp
next
  case renew
  let ?l0 = "if Map_size limits \<ge> CACHE_LIMIT_IPS cfg then Map_delete_oldest limits else limits"
  have d: "distinct (Map_keys ?l0)"
    using ok by (simp add: limits_ok_def distinct_Map_keys_delete_oldest)
  have "Map_size ?l0 < CACHE_LIMIT_IPS cfg"
  proof (cases "Map_size limits \<ge> CACHE_LIMIT_IPS cfg")
    case True
    with cap have "limits \<noteq> []" by (auto simp: Map_size_def)
    from Map_size_delete_oldest [OF this] ok True show ?thesis
      by (simp add: limits_ok_def)
  next
    case False
    then show ?thesis by simp
  qed
  then have "Map_size ?l0 < CACHE_LIMIT_IPS cfg \<or>
       (ip \<in> set (Map_keys ?l0) \<and> Map_size ?l0 \<le> CACHE_LIMIT_IPS cfg)"
    by (rule disjI1)
  from Map_set_ok [OF d this] show ?thesis
    unfolding rate_check_renew [OF renew] limits_ok_def by simp
qed

lemma sweep_ok: "limits_ok cfg limits \<Longrightarrow> limits_ok cfg (sweep now limits)"
proof -
  assume ok: "limits_ok cfg limits"
  have "length (sweep now limits) \<le> length limits"
    unfolding sweep_def by (rule length_filter_le)
  with ok have "Map_size (sweep now limits) \<le> CACHE_LIMIT_IPS cfg"
    by (simp add: limits_ok_def Map_size_def)
  moreover from ok have "distinct (Map_keys (sweep now limits))"
    unfolding sweep_def limits_ok_def by (simp add: distinct_Map_keys_filter)
  ultimately show ?thesis
    by (simp add: limits_ok_def)
qed

lemma session_step_limits: "ipRateLimits (session_step cfg ev s) = ipRateLimits s"
  by (cases ev) (simp_all add: on_connection_def on_disconnect_def Let_def)

lemma server_step_ok:
  assumes "0 < CACHE_LIMIT_IPS cfg" "limits_ok cfg (ipRateLimits s)"
  shows "limits_ok cfg (ipRateLimits (server_step cfg rt ev s))"
proof (cases ev)
  case (Message sid ip now msg)
  with assms show ?thesis by (simp add: on_message_limits rate_check_ok)
next
  case (Sweep now)
  with assms show ?thesis by (simp add: sweep_ok)
next
  case (Session e)
  with assms show ?thesis by (simp add: session_step_limits)
qed

lemma server_run_ok:
  assumes "0 < CACHE_LIMIT_IPS cfg"
  shows "limits_ok cfg (ipRateLimits s) \<Longrightarrow>
    limits_ok cfg (ipRateLimits (fold (server_step cfg rt) evs s))"
  by (induction evs arbitrary: s) (simp_all add: server_step_ok [OF assms])

lemma rate_check_evicts:
  assumes d: "distinct (Map_keys limits)" and full: "Map_size limits \<ge> CACHE_LIMIT_IPS cfg"
    and renew: "Map_get limits ip = None \<or> now > expires (the (Map_get limits ip))"
  shows "snd (rate_check cfg ip now limits) =
           Map_set ip \<lparr>count = 1, expires = now + 60000\<rparr> (tl limits)"
  unfolding rate_check_renew [OF renew] using d full by (simp add: Map_delete_oldest_tl)

text \<open>
  C8. With a capacity of at least one address (it is 1000): from an empty table, whatever
  messages, sweeps, connections and disconnections follow, the table never holds more
  entries than the capacity, and its keys stay distinct; each rate check keeps that bound.
  When a new window is allocated in a table at capacity, exactly the first entry, the one
  whose key was inserted earliest, is removed before the window is stored; when the
  address is not in the table, the result is the rest of the table with the new window
  appended.
\<close>

theorem rate_table_bounded:
  "0 < CACHE_LIMIT_IPS cfg \<longrightarrow>
     (ipRateLimits s = [] \<longrightarrow>
        Map_size (ipRateLimits (fold (server_step cfg rt) evs s)) \<le> CACHE_LIMIT_IPS cfg \<and>
        distinct (Map_keys (ipRateLimits (fold (server_step cfg rt) evs s)))) \<and>
     (distinct (Map_keys limits) \<and> Map_size limits \<le> CACHE_LIMIT_IPS cfg \<longrightarrow>
        Map_size (snd (rate_check cfg ipHash now limits)) \<le> CACHE_LIMIT_IPS cfg \<and>
        distinct (Map_keys (snd (rate_check cfg ipHash now limits)))) \<and>
     (distinct (Map_keys limits) \<and> Map_size limits = CACHE_LIMIT_IPS cfg \<and>
      (Map_get limits ipHash = None \<or> now > expires (the (Map_get limits ipHash))) \<longrightarrow>
        snd (rate_check cfg ipHash now limits) =
          Map_set ipHash \<lparr>count = 1, expires = now + 60000\<rparr> (tl limits) \<and>
        (ipHash \<notin> set (Map_keys limits) \<longrightarrow>
           snd (rate_check cfg ipHash now limits) =
             tl limits @ [(ipHash, \<lparr>count = 1, expires = now + 60000\<rparr>)]))"
proof (intro conjI impI)
  assume cap: "0 < CACHE_LIMIT_IPS cfg"
  {
    assume "ipRateLimits s = []"
    then have "limits_ok cfg (ipRateLimits s)"
      by (simp add: limits_ok_def Map_keys_def Map_size_def)
    from server_run_ok [OF cap this, of rt evs]
    show "Map_size (ipRateLimits (fold (server_step cfg rt) evs s)) \<le> CACHE_LIMIT_IPS cfg"
      "distinct (Map_keys (ipRateLimits (fold (server_step cfg rt) evs s)))"
      by (simp_all add: limits_ok_def)
  }
  {
    assume "distinct (Map_keys limits) \<and> Map_size limits \<le> CACHE_LIMIT_IPS cfg"
    then have "limits_ok cfg limits"
      by (simp add: limits_ok_def)
    from rate_check_ok [OF cap this, of ipHash now]
    show "Map_size (snd (rate_check cfg ipHash now limits)) \<le> CACHE_LIMIT_IPS cfg"
      "distinct (Map_keys (snd (rate_check cfg ipHash now limits)))"
      by (simp_all add: limits_ok_def)
  }
  {
    assume a: "distinct (Map_keys limits) \<and> Map_size limits = CACHE_LIMIT_IPS cfg \<and>
      (Map_get limits ipHash = None \<or> now > expires (the (Map_get limits ipHash)))"
    then have ev: "snd (rate_check cfg ipHash now limits) =
          Map_set ipHash \<lparr>count = 1, expires = now + 60000\<rparr> (tl limits)"
      using rate_check_evicts [of limits cfg ipHash now] by simp
    then show "snd (rate_check cfg ipHash now limits) =
          Map_set ipHash \<lparr>count = 1, expires = now + 60000\<rparr> (tl limits)" .
    assume "ipHash \<notin> set (Map_keys limits)"
    then have "ipHash \<notin> set (Map_keys (tl limits))"
      by (cases limits) (simp_all add: Map_keys_def)
    then show "snd (rate_check cfg ipHash now limits) =
             tl limits @ [(ipHash, \<lparr>count = 1, expires = now + 60000\<rparr>)]"
      unfolding ev by (rule Map_set_fresh)
  }
qed

theorem rate_table_bounded_witness:
  "Map_size (ipRateLimits (fold (server_step example_config example_runtime)
      [Message ''s1'' ''aaaa0001'' 0 example_text, Message ''s2'' ''aaaa0002'' 5 example_text,
       Message ''s3'' ''aaaa0003'' 9 example_text] example_server)) \<le> 2 \<and>
   snd (rate_check example_config ''aaaa0003'' 9
      [(''aaaa0001'', \<lparr>count = 1, expires = 60000\<rparr>),
       (''aaaa0002'', \<lparr>count = 1, expires = 60005\<rparr>)]) =
     [(''aaaa0002'', \<lparr>count = 1, expires = 60005\<rparr>),
      (''aaaa0003'', \<lparr>count = 1, expires = 60009\<rparr>)]"
proof -
  let ?l = "[(''aaaa0001'', \<lparr>count = 1, expires = 60000\<rparr>),
       (''aaaa0002'', \<lparr>count = 1, expires = 60005\<rparr>)]"
  note th = rate_table_bounded [of example_config example_server example_runtime
      "[Message ''s1'' ''aaaa0001'' 0 example_text, Message ''s2'' ''aaaa0002'' 5 example_text,
        Message ''s3'' ''aaaa0003'' 9 example_text]" ?l "''aaaa0003''" 9]
  have cap: "0 < CACHE_LIMIT_IPS example_config" "CACHE_LIMIT_IPS example_config = 2"
    by (simp_all add: example_config_def)
  have h1: "ipRateLimits example_server = []"
    by (simp add: example_server_def)
  have h2: "distinct (Map_keys ?l) \<and> Map_size ?l = CACHE_LIMIT_IPS example_config \<and>
      (Map_get ?l ''aaaa0003'' = None \<or> 9 > expires (the (Map_get ?l ''aaaa0003'')))"
    by (simp add: Map_keys_def Map_size_def Map_get_def example_config_def)
  have h3: "''aaaa0003'' \<notin> set (Map_keys ?l)"
    by (simp add: Map_keys_def)
  from th cap h1 have "Map_size (ipRateLimits (fold (server_step example_config example_runtime)
      [Message ''s1'' ''aaaa0001'' 0 example_text, Message ''s2'' ''aaaa0002'' 5 example_text,
       Message ''s3'' ''aaaa0003'' 9 example_text] example_server)) \<le> 2"
    by metis
  moreover from th cap(1) h2 h3 have "snd (rate_check example_config ''aaaa0003'' 9 ?l) =
      tl ?l @ [(''aaaa0003'', \<lparr>count = 1, expires = 9 + 60000\<rparr>)]"
    by blast
  ultimately show ?thesis by simp
qed

subsection \<open>The relayed message\<close>

lemma get_prop_set:
  "get_prop (JObj (Map_set k v kvs)) k' = (if k' = k then v else get_prop (JObj kvs) k')"
  by (simp add: Map_get_set)

lemma can_assign_put: "can_assign (put_prop k v m) = can_assign m"
  by (cases m) simp_all

lemma put_prop_twice: "put_prop k w (put_prop k v m) = put_prop k w m"
  by (cases m) (simp_all add: Map_set_twice)

lemma relay_file_sender:
  assumes "relay_file cfg rt (JObj kvs) s = (Done ems, s')" "ToAll out \<in> set ems"
  shows "get_prop out ''senderId'' = get_prop (JObj kvs) ''senderId''"
proof (cases "get_prop (JObj kvs) ''content''")
  case (JStr content)
  show ?thesis
  proof (cases "name_string rt (get_prop (JObj kvs) ''name'')")
    case None
    with assms JStr show ?thesis
      by (simp add: relay_file_def split: if_splits)
  next
    case (Some base)
    define kvs1 where
      "kvs1 = Map_set ''name'' (JStr (collapse_underscores (replace_unsafe_name (basename rt base)))) kvs"
    have p: "get_prop (put_prop ''size'' x (put_prop ''fileType'' y (JObj kvs1))) ''senderId'' =
        get_prop (JObj kvs) ''senderId''" for x y
      by (simp add: kvs1_def Map_get_set)
    from assms JStr Some show ?thesis
      unfolding relay_file_def Let_def broadcast_file_def
      using p by (auto simp: kvs1_def split: if_splits option.splits)
  qed
qed (use assms in \<open>simp_all add: relay_file_def\<close>)

lemma on_message_sender:
  assumes "on_message cfg rt socket_id ipHash now msg s = (Done ems, s')" "ToAll out \<in> set ems"
  shows "get_prop out ''senderId'' = JStr socket_id"
proof (cases msg)
  case (JObj kvs)
  define kvs3 where "kvs3 =
    Map_set ''hue'' (JNum (case Map_get (activeHues s) socket_id of Some hue \<Rightarrow> hue | None \<Rightarrow> 210))
      (Map_set ''timestamp'' (JNum (of_int now)) (Map_set ''senderId'' (JStr socket_id) kvs))"
  have g: "get_prop (JObj kvs3) ''senderId'' = JStr socket_id"
    by (simp add: kvs3_def Map_get_set)
  define s1 where "s1 = s\<lparr>ipRateLimits := snd (rate_check cfg ipHash now (ipRateLimits s))\<rparr>"
  have om: "on_message cfg rt socket_id ipHash now msg s =
    (if \<not> fst (rate_check cfg ipHash now (ipRateLimits s))
     then (Done [ToSocket ''error'' ''Rate limit exceeded''], s1)
     else if get_prop (JObj kvs3) ''type'' = JStr ''text'' then
       (case get_prop (JObj kvs3) ''content'' of
          JStr content \<Rightarrow> if length content < 65536 then (Done [ToAll (JObj kvs3)], s1) else (Done [], s1)
        | _ \<Rightarrow> (Done [], s1))
     else if get_prop (JObj kvs3) ''type'' \<noteq> JStr ''file'' then (Done [], s1)
     else relay_file cfg rt (JObj kvs3) s1)"
    unfolding on_message_def Let_def JObj kvs3_def s1_def
    by (simp cong: jsval.case_cong if_cong)
  show ?thesis
  proof (cases "fst (rate_check cfg ipHash now (ipRateLimits s))")
    case False
    with assms om show ?thesis by auto
  next
    case True
    show ?thesis
    proof (cases "get_prop (JObj kvs3) ''type'' = JStr ''text''")
      case is_text: True
      with assms om True g show ?thesis
        by (auto split: jsval.splits if_splits)
    next
      case not_text: False
      show ?thesis
      proof (cases "get_prop (JObj kvs3) ''type'' = JStr ''file''")
        case True
        with assms om \<open>fst (rate_check cfg ipHash now (ipRateLimits s))\<close> not_text
        have "relay_file cfg rt (JObj kvs3) s1 = (Done ems, s')" by simp
        from relay_file_sender [OF this assms(2)] g show ?thesis by simp
      next
        case False
        with assms om True not_text show ?thesis by auto
      qed
    qed
  qed
qed (use assms in \<open>auto simp: on_message_def Let_def relay_file_def split: if_splits\<close>)

text \<open>
  C10. Whenever the handler broadcasts a message, its \<^verbatim>\<open>senderId\<close> is the id of the
  socket the message came from, whatever the payload held; and the whole outcome of the
  handler, state included, is the same whatever \<^verbatim>\<open>senderId\<close> the client put into the
  payload.
\<close>

theorem broadcast_senderId:
  "(on_message cfg rt socket_id ipHash now msg s = (Done ems, s') \<and> ToAll out \<in> set ems \<longrightarrow>
      get_prop out ''senderId'' = JStr socket_id) \<and>
   on_message cfg rt socket_id ipHash now (put_prop ''senderId'' v msg) s =
     on_message cfg rt socket_id ipHash now msg s"
proof
  show "on_message cfg rt socket_id ipHash now msg s = (Done ems, s') \<and> ToAll out \<in> set ems \<longrightarrow>
      get_prop out ''senderId'' = JStr socket_id"
    using on_message_sender by blast
  show "on_message cfg rt socket_id ipHash now (put_prop ''senderId'' v msg) s =
     on_message cfg rt socket_id ipHash now msg s"
    by (simp only: on_message_def can_assign_put put_prop_twice)
qed

theorem broadcast_senderId_witness:
  "fst (on_message example_config example_runtime ''sock1'' ''abcd1234'' 1000 example_text
      example_server) =
     Done [ToAll (JObj [(''type'', JStr ''text''), (''content'', JStr ''hello''),
       (''senderId'', JStr ''sock1''), (''tempId'', JStr ''t1''), (''timestamp'', JNum 1000),
       (''hue'', JNum 210)])] \<and>
   get_prop (JObj [(''type'', JStr ''text''), (''content'', JStr ''hello''),
       (''senderId'', JStr ''sock1''), (''tempId'', JStr ''t1''), (''timestamp'', JNum 1000),
       (''hue'', JNum 210)]) ''senderId'' = JStr ''sock1''"
proof -
  let ?out = "JObj [(''type'', JStr ''text''), (''content'', JStr ''hello''),
       (''senderId'', JStr ''sock1''), (''tempId'', JStr ''t1''), (''timestamp'', JNum 1000),
       (''hue'', JNum 210)]"
  let ?s' = "example_server\<lparr>ipRateLimits := [(''abcd1234'', \<lparr>count = 1, expires = 61000\<rparr>)]\<rparr>"
  have ev: "on_message example_config example_runtime ''sock1'' ''abcd1234'' 1000 example_text
      example_server = (Done [ToAll ?out], ?s')"
    by (simp add: on_message_def rate_check_def Map_get_def Map_size_def example_config_def
        example_server_def example_text_def)
  have "on_message example_config example_runtime ''sock1'' ''abcd1234'' 1000 example_text
      example_server = (Done [ToAll ?out], ?s') \<and> ToAll ?out \<in> set [ToAll ?out]"
    using ev by simp
  with broadcast_senderId [of example_config example_runtime "''sock1''" "''abcd1234''" 1000
      example_text example_server "[ToAll ?out]" ?s' ?out]
  have "get_prop ?out ''senderId'' = JStr ''sock1''"
    by blast
  with ev show ?thesis by simp
qed

subsection \<open>MIME detection\<close>




















text \<open>
  C5 does not hold of the handler. The two tests of \<^verbatim>\<open>msg.content.startsWith\<close> stand
  before the \<^verbatim>\<open>try\<close>; a file message without \<^verbatim>\<open>content\<close> makes the first of them
  throw a \<^verbatim>\<open>TypeError\<close> that nothing catches.
\<close>

theorem file_without_content_throws:
  "on_message example_config example_runtime ''sock1'' ''abcd1234'' 1000 example_no_content
     example_server =
     (Uncaught ''TypeError'',
      example_server\<lparr>ipRateLimits := [(''abcd1234'', \<lparr>count = 1, expires = 61000\<rparr>)]\<rparr>)"
  by (simp add: on_message_def relay_file_def rate_check_def Map_get_def Map_size_def
      example_config_def example_server_def example_no_content_def)

end
